theory Spec2Isabelle
  imports Main
begin

section \<open>JavaScript values\<close>

text \<open>
  The class engine of the editor lives in \<^verbatim>\<open>Blockly.Class\<close> (the name resolver, the
  member queries and the rename operations) and in the block
  \<^verbatim>\<open>object_variables_get\<close> of \<^verbatim>\<open>blocks/variables.js\<close> (the reference site).

  A name is a JavaScript string, here a \<^typ>\<open>string\<close> whose characters stand for the
  code units below 256. A value that may be \<^verbatim>\<open>undefined\<close>, \<^verbatim>\<open>null\<close> or
  \<^verbatim>\<open>false\<close> is an option, \<^term>\<open>None\<close> standing for the missing value. A call that
  throws returns \<^term>\<open>Inl\<close> of the error.
\<close>

datatype js_error = TypeError | AssertionError

definition and_then :: "js_error + 'a \<Rightarrow> ('a \<Rightarrow> js_error + 'b) \<Rightarrow> js_error + 'b" where
  "and_then r f = (case r of Inl e \<Rightarrow> Inl e | Inr x \<Rightarrow> f x)"

text \<open>\<^verbatim>\<open>if (x)\<close> on a string that may be missing: the empty string is falsy too.\<close>

definition truthy :: "string option \<Rightarrow> bool" where
  "truthy v = (case v of None \<Rightarrow> False | Some s \<Rightarrow> s \<noteq> [])"

subsection \<open>Digits and numbers\<close>

text \<open>
  \<^verbatim>\<open>\d\<close> is an ASCII digit. \<^verbatim>\<open>parseInt(ds, 10)\<close> of a string of digits is its decimal
  value, and the string of a number in a concatenation is its decimal numeral, as long
  as the number is an integer a double holds exactly. Every integer up to \<open>2^53\<close> is
  one; \<open>2^53 + 1\<close> is not, and the sum \<open>2^53 + 1\<close> is rounded to the even neighbour
  \<open>2^53\<close>. Above \<open>2^53\<close> the result depends on how the engine rounds the decimal string
  and prints the double, which this development leaves out: the step answers
  \<^term>\<open>UnsafeInteger\<close> there.
\<close>

datatype 'a outcome = Returns 'a | UnsafeInteger

definition two53 :: nat where
  "two53 = 9007199254740992"

definition is_digit :: "char \<Rightarrow> bool" where
  "is_digit c \<longleftrightarrow> c \<in> set ''0123456789''"

definition digit_char :: "nat \<Rightarrow> char" where
  "digit_char d = ''0123456789'' ! d"

definition digit_value :: "char \<Rightarrow> nat" where
  "digit_value c = of_char c - 48"

definition parseInt :: "string \<Rightarrow> nat" where
  "parseInt ds = foldl (\<lambda>a c. 10 * a + digit_value c) 0 ds"

fun dec :: "nat \<Rightarrow> string" where
  "dec n = (if n < 10 then [digit_char n] else dec (n div 10) @ [digit_char (n mod 10)])"

declare dec.simps [simp del]

text \<open>\<^verbatim>\<open>parseInt(r[2], 10) + 1\<close>, converted to a string by the concatenation.\<close>

definition plus_one :: "string \<Rightarrow> string outcome" where
  "plus_one ds =
     (let v = parseInt ds
      in if v < two53 then Returns (dec (v + 1))
         else if v = two53 then Returns (dec v)
         else UnsafeInteger)"

subsection \<open>Regular expressions of the source\<close>

text \<open>
  \<^verbatim>\<open>/^[\s\xa0]+|[\s\xa0]+$/g\<close> replaced by the empty string: the white space at both
  ends goes. Below 256 the white space characters are tab, line feed, vertical tab, form
  feed, carriage return, space and the no-break space.
\<close>

definition is_space :: "char \<Rightarrow> bool" where
  "is_space c \<longleftrightarrow> (of_char c :: nat) \<in> {9, 10, 11, 12, 13, 32, 160}"

definition trim :: "string \<Rightarrow> string" where
  "trim name = rev (dropWhile is_space (rev (dropWhile is_space name)))"

text \<open>
  \<^verbatim>\<open>name.match(/^(.*?)(\d+)$/)\<close>: the second group is the longest run of digits at the
  end of the name, which must not be empty, and the first group is what stands before
  it. The dot matches no line terminator, so a name with a line feed or a carriage
  return before its digits does not match.
\<close>

definition is_line_terminator :: "char \<Rightarrow> bool" where
  "is_line_terminator c \<longleftrightarrow> (of_char c :: nat) \<in> {10, 13}"

definition match_digits :: "string \<Rightarrow> (string \<times> string) option" where
  "match_digits name =
     (let r2 = rev (takeWhile is_digit (rev name));
          r1 = rev (dropWhile is_digit (rev name))
      in if r2 = [] \<or> (\<exists>c \<in> set r1. is_line_terminator c) then None else Some (r1, r2))"

section \<open>Blocks and the workspace\<close>

datatype connection = Connection (targetBlock: "nat option")

definition isConnected :: "connection \<Rightarrow> bool" where
  "isConnected c = (targetBlock c \<noteq> None)"

datatype input_type = INPUT_VALUE | DUMMY_INPUT

datatype field =
    FieldLabel string
  | FieldVariable string
  | FieldDropdown "(string \<times> string) list" string

record input =
  input_name :: string
  input_type :: input_type
  fieldRow :: "(string option \<times> field) list"
  input_target :: "nat option"

text \<open>
  A block is a JavaScript object, and the engine asks each block for the functions it
  has (\<^verbatim>\<open>if (blocks[i].getClassDef)\<close>). A function a block may lack is an option
  holding what the call returns; \<open>getStatement\<close>, which is only probed, is a flag. The
  fields from \<open>varType\<close> on are those of \<^verbatim>\<open>object_variables_get\<close>; the blocks of that
  type are the ones with \<open>getClassName\<close>, \<open>renameClass\<close> and \<open>update\<close>. The field
  \<open>methods\<close> holds the names of the method blocks (their \<^verbatim>\<open>NAME\<close> fields). Two
  blocks are the same object when their \<open>block_id\<close> is the same. \<open>otherFunctions\<close> names
  the functions that a block of a type defined outside the sources has (\<open>renameClass\<close>,
  \<open>setOldName\<close>, \<open>renameProcedure\<close>): what such a function does is not known here,
  and a call of it is recorded.
\<close>

record block =
  block_id :: nat
  block_type :: string
  isInFlyout :: bool
  getClassDef :: "string option"
  getMethodDef :: "(string \<times> string list) option"
  getStatement :: bool
  getAttributeInputs :: "string list option"
  otherFunctions :: "string list"
  methods :: "string list"
  varType :: string
  varTypeIsSet :: bool
  classVariables :: "string list"
  args :: nat
  argNames :: "string list option"
  curValue :: "string option"
  typeOfValue :: "string option"
  isReturn :: "bool option"
  inputList :: "input list"
  nextConnection :: "connection option"
  previousConnection :: "connection option"
  outputConnection :: "connection option"

record variable =
  var_name :: string
  var_type :: string
  typeSet :: bool

record workspace =
  getAllBlocks :: "block list"
  variableMap :: "variable list"

definition is_object_variables_get :: "block \<Rightarrow> bool" where
  "is_object_variables_get b = (block_type b = ''object_variables_get'')"

subsection \<open>Blocks as they are created\<close>

text \<open>A block with nothing but its identity and its type.\<close>

definition plain_block :: "nat \<Rightarrow> string \<Rightarrow> block" where
  "plain_block i t =
     \<lparr>block_id = i, block_type = t, isInFlyout = False, getClassDef = None,
      getMethodDef = None, getStatement = False, getAttributeInputs = None,
      otherFunctions = [], methods = [], varType = [], varTypeIsSet = False,
      classVariables = [], args = 0, argNames = None, curValue = None, typeOfValue = None,
      isReturn = None, inputList = [], nextConnection = None, previousConnection = None,
      outputConnection = None\<rparr>"

text \<open>
  \<open>init\<close> of \<^verbatim>\<open>object_variables_get\<close>: the description of the block gives it the
  variable field and an output connection.
\<close>

definition init :: "nat \<Rightarrow> block" where
  "init i =
     (plain_block i ''object_variables_get'')
       \<lparr>argNames := Some [],
        inputList := [\<lparr>input_name = [], input_type = DUMMY_INPUT,
                       fieldRow = [(Some ''VAR'', FieldVariable [])], input_target = None\<rparr>],
        outputConnection := Some (Connection None)\<rparr>"

text \<open>
  The class block and the method blocks are defined outside the sources. The engine
  sees of a class block its name (\<open>getClassDef\<close>), \<open>getStatement\<close>, its methods and
  its attributes, and of a method block its type and its name and parameters
  (\<open>getMethodDef\<close>).
\<close>

definition class_class :: "nat \<Rightarrow> string \<Rightarrow> string list \<Rightarrow> string list \<Rightarrow> block" where
  "class_class i name ms attrs =
     (plain_block i ''class_class'')
       \<lparr>getClassDef := Some name, getStatement := True, getAttributeInputs := Some attrs,
        methods := ms\<rparr>"

definition class_function :: "nat \<Rightarrow> string \<Rightarrow> string \<Rightarrow> string list \<Rightarrow> block" where
  "class_function i t name params = (plain_block i t)\<lparr>getMethodDef := Some (name, params)\<rparr>"

definition workspace_of :: "block list \<Rightarrow> workspace" where
  "workspace_of blocks = \<lparr>getAllBlocks = blocks, variableMap = []\<rparr>"

section \<open>Blockly.Class\<close>

subsection \<open>arraysEqual\<close>

text \<open>The result is \<^verbatim>\<open>false\<close>, \<^verbatim>\<open>true\<close> or an index.\<close>

datatype js_index = JSFalse | JSTrue | JSNumber nat

text \<open>\<^verbatim>\<open>for (var i = arr1.length; i--; )\<close>: the index runs from the last one down.\<close>

fun arraysEqual_loop :: "'a list \<Rightarrow> 'a list \<Rightarrow> nat \<Rightarrow> js_index" where
  "arraysEqual_loop arr1 arr2 0 = JSTrue"
| "arraysEqual_loop arr1 arr2 (Suc i) =
     (if arr1 ! i \<noteq> arr2 ! i then JSNumber i else arraysEqual_loop arr1 arr2 i)"

definition arraysEqual :: "'a list \<Rightarrow> 'a list \<Rightarrow> js_index" where
  "arraysEqual arr1 arr2 =
     (if length arr1 \<noteq> length arr2 then JSFalse
      else arraysEqual_loop arr1 arr2 (length arr1))"

subsection \<open>Member queries\<close>

text \<open>
  \<open>getMethods\<close> and \<open>getClassVariables\<close> probe \<open>getStatement\<close> and then call
  \<open>getClassDef\<close> (and \<open>getAttributeInputs\<close>): on a block that lacks the function
  called, the call throws a \<open>TypeError\<close>. The class name may be \<^verbatim>\<open>undefined\<close>.
\<close>

fun getMethods_loop :: "block list \<Rightarrow> string option \<Rightarrow> string list \<Rightarrow> js_error + string list" where
  "getMethods_loop [] classname ms = Inr ms"
| "getMethods_loop (b # blocks) classname ms =
     (if getStatement b then
        (case getClassDef b of
           None \<Rightarrow> Inl TypeError
         | Some n \<Rightarrow> getMethods_loop blocks classname (if classname = Some n then methods b else ms))
      else getMethods_loop blocks classname ms)"

definition getMethods :: "workspace \<Rightarrow> string option \<Rightarrow> js_error + string list" where
  "getMethods workspace classname = getMethods_loop (getAllBlocks workspace) classname []"

fun getClassVariables_loop :: "block list \<Rightarrow> string option \<Rightarrow> string list \<Rightarrow> js_error + string list" where
  "getClassVariables_loop [] classname vs = Inr vs"
| "getClassVariables_loop (b # blocks) classname vs =
     (if getStatement b then
        (case getClassDef b of
           None \<Rightarrow> Inl TypeError
         | Some n \<Rightarrow>
             if classname = Some n then
               (case getAttributeInputs b of
                  None \<Rightarrow> Inl TypeError
                | Some as \<Rightarrow> getClassVariables_loop blocks classname as)
             else getClassVariables_loop blocks classname vs)
      else getClassVariables_loop blocks classname vs)"

definition getClassVariables :: "workspace \<Rightarrow> string option \<Rightarrow> js_error + string list" where
  "getClassVariables workspace classname =
     getClassVariables_loop (getAllBlocks workspace) classname []"

text \<open>\<open>getMethodAttributes\<close>: the arguments of the first method of that name, or \<^verbatim>\<open>false\<close>.\<close>

fun getMethodAttributes_loop :: "block list \<Rightarrow> string \<Rightarrow> string list option" where
  "getMethodAttributes_loop [] methodName = None"
| "getMethodAttributes_loop (b # blocks) methodName =
     (case getMethodDef b of
        Some (n, arguments) \<Rightarrow>
          if n = methodName then Some arguments else getMethodAttributes_loop blocks methodName
      | None \<Rightarrow> getMethodAttributes_loop blocks methodName)"

definition getMethodAttributes :: "workspace \<Rightarrow> string \<Rightarrow> string list option" where
  "getMethodAttributes workspace methodName =
     getMethodAttributes_loop (getAllBlocks workspace) methodName"

subsection \<open>The name resolver\<close>

text \<open>
  \<^verbatim>\<open>Blockly.Names.equals\<close> is not among the sources: the predicate that compares two
  names is the parameter \<open>equals\<close> of the functions below.
\<close>

fun isNameUsed_loop ::
  "(string \<Rightarrow> string \<Rightarrow> bool) \<Rightarrow> string \<Rightarrow> block list \<Rightarrow> block \<Rightarrow> string \<Rightarrow> bool" where
  "isNameUsed_loop equals name [] opt_exclude type = False"
| "isNameUsed_loop equals name (b # blocks) opt_exclude type =
     (if block_id b = block_id opt_exclude then isNameUsed_loop equals name blocks opt_exclude type
      else if type = ''class'' \<and>
              (case getClassDef b of None \<Rightarrow> False | Some procName \<Rightarrow> equals procName name)
           then True
      else if type = ''method'' \<and>
              (case getMethodDef b of None \<Rightarrow> False | Some (procName, _) \<Rightarrow> equals procName name)
           then True
      else isNameUsed_loop equals name blocks opt_exclude type)"

definition isNameUsed ::
  "(string \<Rightarrow> string \<Rightarrow> bool) \<Rightarrow> string \<Rightarrow> workspace \<Rightarrow> block \<Rightarrow> string \<Rightarrow> bool" where
  "isNameUsed equals name workspace opt_exclude type =
     isNameUsed_loop equals name (getAllBlocks workspace) opt_exclude type"

definition isLegalName ::
  "(string \<Rightarrow> string \<Rightarrow> bool) \<Rightarrow> string \<Rightarrow> workspace \<Rightarrow> block \<Rightarrow> string \<Rightarrow> bool" where
  "isLegalName equals name workspace opt_exclude type =
     (\<not> isNameUsed equals name workspace opt_exclude type)"

text \<open>The body of the loop of \<open>findLegalName\<close>: the next candidate.\<close>

definition next_name :: "string \<Rightarrow> string outcome" where
  "next_name name =
     (case match_digits name of
        None \<Rightarrow> Returns (name @ ''2'')
      | Some (r1, r2) \<Rightarrow>
          (case plus_one r2 of
             UnsafeInteger \<Rightarrow> UnsafeInteger
           | Returns s \<Rightarrow> Returns (r1 @ s)))"

text \<open>The loop may run forever: then the result is \<^term>\<open>None\<close>.\<close>

partial_function (option) findLegalName_loop ::
  "(string \<Rightarrow> string \<Rightarrow> bool) \<Rightarrow> workspace \<Rightarrow> block \<Rightarrow> string \<Rightarrow> string \<Rightarrow> string outcome option" where
  "findLegalName_loop equals workspace block type name =
     (if \<not> isLegalName equals name workspace block type then
        (case next_name name of
           UnsafeInteger \<Rightarrow> Some UnsafeInteger
         | Returns name' \<Rightarrow> findLegalName_loop equals workspace block type name')
      else Some (Returns name))"

text \<open>\<open>block.workspace\<close> is the argument \<open>workspace\<close>.\<close>

definition findLegalName ::
  "(string \<Rightarrow> string \<Rightarrow> bool) \<Rightarrow> string \<Rightarrow> block \<Rightarrow> workspace \<Rightarrow> string \<Rightarrow> string outcome option" where
  "findLegalName equals name block workspace type =
     (if isInFlyout block then Some (Returns name)
      else findLegalName_loop equals workspace block type name)"

text \<open>
  The helper definitions of the proofs about the resolver: the name a block defines
  for a kind, the form of a first group that \<open>match_digits\<close> gives back, and the number
  the first step of the loop starts from.
\<close>

definition defined_name :: "string \<Rightarrow> block \<Rightarrow> string option" where
  "defined_name type b =
     (if type = ''class'' then getClassDef b
      else if type = ''method'' then map_option fst (getMethodDef b)
      else None)"

definition stem_ok :: "string \<Rightarrow> bool" where
  "stem_ok p \<longleftrightarrow> (p = [] \<or> \<not> is_digit (last p)) \<and> (\<forall>c \<in> set p. \<not> is_line_terminator c)"

definition suffix_value :: "string \<Rightarrow> nat" where
  "suffix_value name = (case match_digits name of None \<Rightarrow> 1 | Some (r1, r2) \<Rightarrow> parseInt r2)"

subsection \<open>Renaming\<close>

text \<open>\<open>renameClass\<close> of \<^verbatim>\<open>object_variables_get\<close>.\<close>

definition site_renameClass ::
  "(string \<Rightarrow> string \<Rightarrow> bool) \<Rightarrow> block \<Rightarrow> string \<Rightarrow> string \<Rightarrow> block" where
  "site_renameClass equals b oldName newName =
     (if varTypeIsSet b then
        (if equals oldName (varType b) then b\<lparr>varType := newName\<rparr> else b)
      else b)"

definition getClassName :: "block \<Rightarrow> string option" where
  "getClassName b = (if varTypeIsSet b then Some (varType b) else None)"

datatype call =
    RenameClassCall nat string string
  | SetOldNameCall nat string
  | RenameProcedureCall nat string string

text \<open>
  The loop of \<open>renameClass\<close> over the blocks: the blocks after it, and the calls of
  functions defined outside the sources.
\<close>

fun renameClass_loop ::
  "(string \<Rightarrow> string \<Rightarrow> bool) \<Rightarrow> string \<Rightarrow> string \<Rightarrow> block list \<Rightarrow> block list \<times> call list" where
  "renameClass_loop equals oldName legalName [] = ([], [])"
| "renameClass_loop equals oldName legalName (b # blocks) =
     (let b' = (if is_object_variables_get b then site_renameClass equals b oldName legalName
                else b);
          c1 = (if \<not> is_object_variables_get b \<and> ''renameClass'' \<in> set (otherFunctions b)
                then [RenameClassCall (block_id b) oldName legalName] else []);
          c2 = (if ''setOldName'' \<in> set (otherFunctions b)
                then [SetOldNameCall (block_id b) oldName] else []);
          (blocks', calls) = renameClass_loop equals oldName legalName blocks
      in (b' # blocks', c1 @ c2 @ calls))"

text \<open>
  Modelled from the spec: \<^verbatim>\<open>Blockly.Variables.renameScope\<close> is not among the sources.
  The variables whose declared type equals the old class name are updated to the new
  name.
\<close>

definition renameScope :: "workspace \<Rightarrow> string \<Rightarrow> string \<Rightarrow> workspace" where
  "renameScope workspace oldName newName =
     workspace\<lparr>variableMap :=
       map (\<lambda>v. if var_type v = oldName then v\<lparr>var_type := newName\<rparr> else v)
         (variableMap workspace)\<rparr>"

text \<open>
  \<open>renameClass\<close> is called on the name field of a class block: \<open>field_text\<close> (\<^verbatim>\<open>this.text_\<close>) is the text of
  the field and \<open>sourceBlock\<close> its block, in the workspace \<open>workspace\<close>. The result is
  the name returned, the workspace afterwards and the calls recorded.
\<close>

definition renameClass ::
  "(string \<Rightarrow> string \<Rightarrow> bool) \<Rightarrow> string \<Rightarrow> block \<Rightarrow> workspace \<Rightarrow> string \<Rightarrow>
     (string \<times> workspace \<times> call list) outcome option" where
  "renameClass equals field_text sourceBlock workspace name0 =
     (let name = trim name0
      in case findLegalName equals name sourceBlock workspace ''class'' of
           None \<Rightarrow> None
         | Some UnsafeInteger \<Rightarrow> Some UnsafeInteger
         | Some (Returns legalName) \<Rightarrow>
             (let oldName = field_text;
                  (blocks, calls) =
                    (if oldName \<noteq> name \<and> oldName \<noteq> legalName
                     then renameClass_loop equals oldName legalName (getAllBlocks workspace)
                     else (getAllBlocks workspace, []))
              in Some (Returns (legalName,
                        renameScope (workspace\<lparr>getAllBlocks := blocks\<rparr>) oldName legalName,
                        calls))))"

text \<open>
  No block of the sources has \<open>renameProcedure\<close>: the loop of \<open>renameMethod\<close> only
  calls functions defined outside the sources.
\<close>

fun renameMethod_loop :: "string \<Rightarrow> string \<Rightarrow> block list \<Rightarrow> call list" where
  "renameMethod_loop oldName legalName [] = []"
| "renameMethod_loop oldName legalName (b # blocks) =
     (if ''renameProcedure'' \<in> set (otherFunctions b)
      then RenameProcedureCall (block_id b) oldName legalName #
             renameMethod_loop oldName legalName blocks
      else renameMethod_loop oldName legalName blocks)"

definition renameMethod ::
  "(string \<Rightarrow> string \<Rightarrow> bool) \<Rightarrow> string \<Rightarrow> block \<Rightarrow> workspace \<Rightarrow> string \<Rightarrow>
     (string \<times> call list) outcome option" where
  "renameMethod equals field_text sourceBlock workspace name0 =
     (let oldName = field_text;
          name = trim name0
      in case findLegalName equals name sourceBlock workspace ''method'' of
           None \<Rightarrow> None
         | Some UnsafeInteger \<Rightarrow> Some UnsafeInteger
         | Some (Returns legalName) \<Rightarrow>
             Some (Returns (legalName,
               (if oldName \<noteq> name \<and> oldName \<noteq> legalName
                then renameMethod_loop oldName legalName (getAllBlocks workspace)
                else []))))"


section \<open>The block object\_variables\_get\<close>

subsection \<open>Inputs and connections\<close>

text \<open>
  Modelled from the spec: the functions of \<^verbatim>\<open>Blockly.Block\<close> and
  \<^verbatim>\<open>Blockly.Connection\<close> that the block calls on itself are not among the sources.
  The specification speaks of value-input sockets that are added last, removed and
  replaced in place, and of connections that must be disconnected before the shape of
  the block changes. So an input is found by its name; a new input goes to the end of
  the list; removing or moving an input that does not exist, and removing a connection
  that is still connected, fail with an \<open>AssertionError\<close>.
\<close>

text \<open>Modelled from the spec: \<open>getInput\<close>, the first input of that name.\<close>

definition getInput :: "block \<Rightarrow> string \<Rightarrow> input option" where
  "getInput b name = find (\<lambda>i. input_name i = name) (inputList b)"

text \<open>Modelled from the spec: \<open>getFieldValue\<close>, the value of the field of that name.\<close>

fun field_value :: "field \<Rightarrow> string" where
  "field_value (FieldLabel t) = t"
| "field_value (FieldVariable v) = v"
| "field_value (FieldDropdown options v) = v"

definition getFieldValue :: "block \<Rightarrow> string \<Rightarrow> string option" where
  "getFieldValue b name =
     (case find (\<lambda>(n, f). n = Some name) (concat (map fieldRow (inputList b))) of
        None \<Rightarrow> None
      | Some (n, f) \<Rightarrow> Some (field_value f))"

text \<open>
  Modelled from the spec: \<open>removeInput\<close>. The input goes, and with it the block plugged
  into it.
\<close>

fun remove_input :: "string \<Rightarrow> input list \<Rightarrow> input list" where
  "remove_input name [] = []"
| "remove_input name (i # inputs) =
     (if input_name i = name then inputs else i # remove_input name inputs)"

definition removeInput :: "block \<Rightarrow> string \<Rightarrow> js_error + block" where
  "removeInput b name =
     (if getInput b name = None then Inl AssertionError
      else Inr (b\<lparr>inputList := remove_input name (inputList b)\<rparr>))"

text \<open>
  Modelled from the spec: \<open>appendValueInput(name).appendField(label)\<close> and
  \<open>appendDummyInput(name).appendField(field, fieldName)\<close>. The new input is the last one
  and nothing is plugged into it.
\<close>

definition value_input :: "string \<Rightarrow> string \<Rightarrow> input" where
  "value_input name label =
     \<lparr>input_name = name, input_type = INPUT_VALUE,
      fieldRow = [(None, FieldLabel label)], input_target = None\<rparr>"

definition appendValueInput :: "block \<Rightarrow> string \<Rightarrow> string \<Rightarrow> block" where
  "appendValueInput b name label = b\<lparr>inputList := inputList b @ [value_input name label]\<rparr>"

definition appendDummyInput :: "block \<Rightarrow> string \<Rightarrow> string \<Rightarrow> field \<Rightarrow> block" where
  "appendDummyInput b name fieldName f =
     b\<lparr>inputList := inputList b @
         [\<lparr>input_name = name, input_type = DUMMY_INPUT,
           fieldRow = [(Some fieldName, f)], input_target = None\<rparr>]\<rparr>"

text \<open>
  Modelled from the spec: \<open>moveInputBefore(name, refName)\<close>. The input moves to the place
  before the reference input, or to the end when there is no reference.
\<close>

fun input_index :: "string \<Rightarrow> input list \<Rightarrow> nat option" where
  "input_index name [] = None"
| "input_index name (i # inputs) =
     (if input_name i = name then Some 0 else map_option Suc (input_index name inputs))"

definition moveInputBefore :: "block \<Rightarrow> string \<Rightarrow> string option \<Rightarrow> js_error + block" where
  "moveInputBefore b name refName =
     (if Some name = refName then Inr b
      else
        (case (input_index name (inputList b),
               (case refName of
                  None \<Rightarrow> Some (length (inputList b))
                | Some r \<Rightarrow> if r = [] then Some (length (inputList b))
                            else input_index r (inputList b))) of
           (Some inputIndex, Some refIndex) \<Rightarrow>
             (let moved = inputList b ! inputIndex;
                  rest = take inputIndex (inputList b) @ drop (Suc inputIndex) (inputList b);
                  at = (if inputIndex < refIndex then refIndex - 1 else refIndex)
              in Inr (b\<lparr>inputList := take at rest @ [moved] @ drop at rest\<rparr>))
         | _ \<Rightarrow> Inl AssertionError))"

text \<open>
  Modelled from the spec: \<open>disconnect\<close> frees a connection, and \<open>setOutput\<close>,
  \<open>setPreviousStatement\<close> and \<open>setNextStatement\<close> add the connection (when it is not
  there) or remove it; a connection that is removed must not be connected.
\<close>

definition disconnect :: "connection \<Rightarrow> connection" where
  "disconnect c = Connection None"

definition setOutput :: "block \<Rightarrow> bool \<Rightarrow> js_error + block" where
  "setOutput b newBoolean =
     (if newBoolean then
        (case outputConnection b of
           None \<Rightarrow> Inr (b\<lparr>outputConnection := Some (Connection None)\<rparr>)
         | Some c \<Rightarrow> Inr b)
      else
        (case outputConnection b of
           None \<Rightarrow> Inr b
         | Some c \<Rightarrow> if isConnected c then Inl AssertionError
                      else Inr (b\<lparr>outputConnection := None\<rparr>)))"

definition setPreviousStatement :: "block \<Rightarrow> bool \<Rightarrow> js_error + block" where
  "setPreviousStatement b newBoolean =
     (if newBoolean then
        (case previousConnection b of
           None \<Rightarrow> Inr (b\<lparr>previousConnection := Some (Connection None)\<rparr>)
         | Some c \<Rightarrow> Inr b)
      else
        (case previousConnection b of
           None \<Rightarrow> Inr b
         | Some c \<Rightarrow> if isConnected c then Inl AssertionError
                      else Inr (b\<lparr>previousConnection := None\<rparr>)))"

definition setNextStatement :: "block \<Rightarrow> bool \<Rightarrow> js_error + block" where
  "setNextStatement b newBoolean =
     (if newBoolean then
        (case nextConnection b of
           None \<Rightarrow> Inr (b\<lparr>nextConnection := Some (Connection None)\<rparr>)
         | Some c \<Rightarrow> Inr b)
      else
        (case nextConnection b of
           None \<Rightarrow> Inr b
         | Some c \<Rightarrow> if isConnected c then Inl AssertionError
                      else Inr (b\<lparr>nextConnection := None\<rparr>)))"

subsection \<open>setType\<close>

definition setType :: "block \<Rightarrow> bool \<Rightarrow> js_error + block" where
  "setType b is_return =
     (if varType b \<noteq> [] \<and> varTypeIsSet b then
        (if is_return then
           (let b1 = (case nextConnection b of
                        None \<Rightarrow> b
                      | Some c \<Rightarrow> if isConnected c
                                   then b\<lparr>nextConnection := Some (disconnect c)\<rparr> else b);
                b2 = (case previousConnection b1 of
                        None \<Rightarrow> b1
                      | Some c \<Rightarrow> if isConnected c
                                   then b1\<lparr>previousConnection := Some (disconnect c)\<rparr> else b1)
            in and_then (setNextStatement b2 False) (\<lambda>b3.
               and_then (setPreviousStatement b3 False) (\<lambda>b4.
               setOutput b4 True)))
         else
           and_then (setOutput b False) (\<lambda>b1.
           and_then (setNextStatement b1 True) (\<lambda>b2.
           setPreviousStatement b2 True)))
      else Inr b)"

subsection \<open>getDropDown and update\<close>

text \<open>\<^verbatim>\<open>list.array_includes(v)\<close> for a list of strings and a value that may be missing.\<close>

definition array_includes :: "string list \<Rightarrow> string option \<Rightarrow> bool" where
  "array_includes xs v = (case v of None \<Rightarrow> False | Some s \<Rightarrow> s \<in> set xs)"

text \<open>
  The part of \<open>getDropDown\<close> that settles the current value: it is translated when it
  is the old name, cleared when it is in neither list, and its kind is noted.
\<close>

definition select_current :: "block \<Rightarrow> string option list \<Rightarrow> string option \<Rightarrow> string option \<Rightarrow> block" where
  "select_current b methodNames oldName newName =
     (let b1 = (if curValue b = oldName then b\<lparr>curValue := newName\<rparr> else b);
          b2 = (if curValue b1 \<notin> set methodNames \<and> \<not> array_includes (classVariables b1) (curValue b1)
                then b1\<lparr>curValue := Some [], typeOfValue := Some []\<rparr> else b1)
      in if truthy (curValue b2) then
           (if array_includes (classVariables b2) (curValue b2)
            then b2\<lparr>typeOfValue := Some ''attribute''\<rparr>
            else b2\<lparr>typeOfValue := Some ''method''\<rparr>)
         else b2)"

text \<open>The options of the dropdown: the current value, the attributes, the methods.\<close>

definition dropdown_options :: "block \<Rightarrow> string option list \<Rightarrow> (string \<times> string) list" where
  "dropdown_options b methodNames =
     (case curValue b of
        None \<Rightarrow> []
      | Some c \<Rightarrow>
          if c = [] then []
          else if array_includes (classVariables b) (curValue b) then [(c, c)]
          else [(c @ ''()'', c)]) @
     map (\<lambda>v. (v, v))
       (filter (\<lambda>v. \<not> (Some v = curValue b \<and> typeOfValue b = Some ''attribute''))
          (classVariables b)) @
     map (\<lambda>(n, m). (m @ ''()'', m))
       (filter (\<lambda>(n, m). \<not> (n = curValue b \<and> typeOfValue b = Some ''method''))
          (zip methodNames (methods b)))"

text \<open>
  \<^verbatim>\<open>Blockly.getMainWorkspace()\<close> is the argument \<open>workspace\<close>. A new dropdown field
  shows its first option; it cannot be made of no option.
\<close>

definition getDropDown ::
  "workspace \<Rightarrow> block \<Rightarrow> string option \<Rightarrow> string option \<Rightarrow> js_error + block" where
  "getDropDown workspace b oldName newName =
     (if \<not> isInFlyout b then
        and_then (getMethods workspace (getClassName b)) (\<lambda>ms.
        and_then (getClassVariables workspace (getClassName b)) (\<lambda>cvs.
          if length (methods b) \<noteq> length ms \<or> truthy oldName \<or>
             length (classVariables b) \<noteq> length cvs
          then
            and_then (if getInput b ''Data'' \<noteq> None then removeInput b ''Data'' else Inr b) (\<lambda>b1.
              let b2 = b1\<lparr>methods := ms, classVariables := cvs\<rparr>
              in if ms \<noteq> [] \<or> cvs \<noteq> [] then
                   (let methodNames = map (\<lambda>m. if Some m = oldName then newName else Some m) ms;
                        b3 = select_current b2 methodNames oldName newName;
                        options = dropdown_options b3 methodNames
                    in case options of
                         [] \<Rightarrow> Inl TypeError
                       | (l, v) # _ \<Rightarrow>
                           (let b4 = appendDummyInput b3 ''Data'' ''METHODS''
                                       (FieldDropdown options v)
                            in if getInput b4 ''ARG0'' \<noteq> None
                               then moveInputBefore b4 ''Data'' (Some ''ARG0'')
                               else Inr b4))
                 else Inr b2)
          else Inr b))
      else Inr b)"

definition update ::
  "workspace \<Rightarrow> block \<Rightarrow> string option \<Rightarrow> string option \<Rightarrow> js_error + block" where
  "update workspace b oldName legalName =
     (if varTypeIsSet b then getDropDown workspace b oldName legalName else Inr b)"

subsection \<open>getCallers and mutateCallers\<close>

text \<open>
  The callers are given by their places in the list of blocks. Of the blocks with
  \<open>getClassName\<close> the sources hold \<^verbatim>\<open>object_variables_get\<close>.
\<close>

definition getCallers :: "(string \<Rightarrow> string \<Rightarrow> bool) \<Rightarrow> string \<Rightarrow> workspace \<Rightarrow> nat list" where
  "getCallers equals name workspace =
     filter (\<lambda>i. is_object_variables_get (getAllBlocks workspace ! i) \<and>
                 (case getClassName (getAllBlocks workspace ! i) of
                    None \<Rightarrow> False
                  | Some className \<Rightarrow> className \<noteq> [] \<and> equals className name))
       [0 ..< length (getAllBlocks workspace)]"

fun mutateCallers_loop :: "nat list \<Rightarrow> workspace \<Rightarrow> js_error + workspace" where
  "mutateCallers_loop [] workspace = Inr workspace"
| "mutateCallers_loop (i # callers) workspace =
     and_then (update workspace (getAllBlocks workspace ! i) None None) (\<lambda>b.
       mutateCallers_loop callers
         (workspace\<lparr>getAllBlocks := (getAllBlocks workspace)[i := b]\<rparr>))"

definition mutateCallers ::
  "(string \<Rightarrow> string \<Rightarrow> bool) \<Rightarrow> block \<Rightarrow> workspace \<Rightarrow> js_error + workspace" where
  "mutateCallers equals block workspace =
     (case getClassDef block of
        None \<Rightarrow> Inl TypeError
      | Some name \<Rightarrow> mutateCallers_loop (getCallers equals name workspace) workspace)"

subsection \<open>onchange\<close>

text \<open>\<^verbatim>\<open>"ARG" + n\<close>, the name of the input of the argument \<open>n\<close>.\<close>

definition ARG :: "nat \<Rightarrow> string" where
  "ARG n = ''ARG'' @ dec n"

text \<open>
  The two loops that bring the number of argument inputs to the number of parameters.
\<close>

function remove_arguments :: "nat \<Rightarrow> block \<Rightarrow> js_error + block" where
  "remove_arguments n b =
     (if args b > n then
        (case removeInput (b\<lparr>args := args b - 1\<rparr>) (ARG (args b - 1)) of
           Inl e \<Rightarrow> Inl e
         | Inr b' \<Rightarrow> remove_arguments n b')
      else Inr b)"
  by pat_completeness auto
termination
  by (relation "measure (\<lambda>(n, b). args b - n)")
     (auto simp: removeInput_def split: if_splits)

declare remove_arguments.simps [simp del]

function append_arguments :: "string list \<Rightarrow> block \<Rightarrow> js_error + block" where
  "append_arguments arguments b =
     (if args b < length arguments then
        (case moveInputBefore
                (appendValueInput b (ARG (args b)) (arguments ! args b))
                (ARG (args b)) None of
           Inl e \<Rightarrow> Inl e
         | Inr b' \<Rightarrow> append_arguments arguments (b'\<lparr>args := args b' + 1\<rparr>))
      else Inr b)"
  by pat_completeness auto
termination
  by (relation "measure (\<lambda>(arguments, b). length arguments - args b)")
     (auto simp: moveInputBefore_def appendValueInput_def value_input_def Let_def
           split: if_splits option.splits)

declare append_arguments.simps [simp del]

text \<open>
  \<^verbatim>\<open>arraysEqual(this.argNames, args)\<close>, where either may be \<^verbatim>\<open>false\<close>, whose
  length is \<^verbatim>\<open>undefined\<close>.
\<close>

definition arraysEqual_names :: "string list option \<Rightarrow> string list option \<Rightarrow> js_index" where
  "arraysEqual_names arr1 arr2 =
     (case (arr1, arr2) of
        (Some a1, Some a2) \<Rightarrow> arraysEqual a1 a2
      | (None, None) \<Rightarrow> JSTrue
      | _ \<Rightarrow> JSFalse)"

text \<open>The last block that defines a method of that name, as the loop of \<open>onchange\<close> finds it.\<close>

definition find_methodBlock :: "workspace \<Rightarrow> string \<Rightarrow> block option" where
  "find_methodBlock workspace method =
     (case filter (\<lambda>b. case getMethodDef b of None \<Rightarrow> False | Some (n, arguments) \<Rightarrow> n = method)
             (getAllBlocks workspace) of
        [] \<Rightarrow> None
      | found \<Rightarrow> Some (last found))"

text \<open>
  The step of \<open>onchange\<close> that brings the argument inputs in line with the parameters
  \<open>arguments\<close> of the method (\<^verbatim>\<open>false\<close> when no block defines the method).
\<close>

definition onchange_arguments :: "block \<Rightarrow> string list option \<Rightarrow> js_error + block" where
  "onchange_arguments b2 arguments =
     and_then
       (case arguments of
          None \<Rightarrow> Inr b2
        | Some as \<Rightarrow>
            if args b2 \<noteq> length as then
              (if args b2 > length as then remove_arguments (length as) b2
               else append_arguments as b2)
            else Inr b2)
       (\<lambda>b3.
          and_then
            (case arraysEqual_names (argNames b3) arguments of
               JSNumber count \<Rightarrow>
                 and_then (removeInput b3 (ARG count)) (\<lambda>b4.
                   let b5 = appendValueInput b4 (ARG count) (the arguments ! count)
                   in if getInput b5 (ARG (count + 1)) \<noteq> None
                      then moveInputBefore b5 (ARG count)
                             (Some (ARG (count + 1)))
                      else Inr b5)
             | _ \<Rightarrow> Inr b3)
            (\<lambda>b6. Inr (b6\<lparr>argNames := arguments\<rparr>)))"

text \<open>The branch of \<open>onchange\<close> for a method.\<close>

definition onchange_method :: "workspace \<Rightarrow> block \<Rightarrow> string \<Rightarrow> js_error + block" where
  "onchange_method workspace b0 method =
     (let b = b0\<lparr>typeOfValue := Some ''method''\<rparr>
      in and_then
           (case find_methodBlock workspace method of
              None \<Rightarrow> Inr b
            | Some methodBlock \<Rightarrow>
                (let r = (if block_type methodBlock = ''class_function_return'' then Some True
                          else if block_type methodBlock = ''class_function_noreturn'' then Some False
                          else None)
                 in setType (b\<lparr>isReturn := r\<rparr>) (r = Some True)))
           (\<lambda>b1. onchange_arguments (b1\<lparr>curValue := Some method\<rparr>)
                    (getMethodAttributes workspace method)))"

text \<open>The branch of \<open>onchange\<close> for an attribute.\<close>

definition onchange_attribute :: "block \<Rightarrow> js_error + block" where
  "onchange_attribute b0 =
     and_then (setType (b0\<lparr>typeOfValue := Some ''attribute''\<rparr>) True) (\<lambda>b1.
       remove_arguments 0 (b1\<lparr>curValue := getFieldValue b1 ''METHODS''\<rparr>))"

text \<open>
  \<open>onchange\<close> from \<^verbatim>\<open>if (this.varType != "" && this.varTypeIsSet)\<close> on. What comes
  before (the colour of the block and the type of its variable) is read from the
  variable model and the colour of the class block, which are not among the sources.
\<close>

definition onchange :: "workspace \<Rightarrow> block \<Rightarrow> js_error + block" where
  "onchange workspace b =
     (if varType b \<noteq> [] \<and> varTypeIsSet b then
        (let isVar = array_includes (classVariables b) (getFieldValue b ''METHODS'')
         in if truthy (getFieldValue b ''METHODS'') \<and> \<not> isInFlyout b \<and> \<not> isVar
            then onchange_method workspace b (the (getFieldValue b ''METHODS''))
            else onchange_attribute b)
      else Inr b)"

text \<open>
  The dropdown of a site is the field \<open>METHODS\<close> of its input \<open>Data\<close>, which
  \<open>getDropDown\<close> makes: the site has at most one input \<open>Data\<close>, and no other input
  holds a field \<open>METHODS\<close>.
\<close>

definition dropdown_in_Data :: "block \<Rightarrow> bool" where
  "dropdown_in_Data b \<longleftrightarrow>
     length (filter (\<lambda>i. input_name i = ''Data'') (inputList b)) \<le> 1 \<and>
     (\<forall>i \<in> set (inputList b).
        Some ''METHODS'' \<in> fst ` set (fieldRow i) \<longrightarrow> input_name i = ''Data'')"

text \<open>Two states of a block with the same three connections.\<close>

definition same_connections :: "block \<Rightarrow> block \<Rightarrow> bool" where
  "same_connections b b' \<longleftrightarrow>
     outputConnection b' = outputConnection b \<and> nextConnection b' = nextConnection b \<and>
     previousConnection b' = previousConnection b"

subsection \<open>Reference sites of the examples\<close>

text \<open>
  A site bound to the class \<open>Animal\<close> whose selected member is the method \<open>speak\<close>, and
  one whose selected member is the method \<open>feed\<close> with the parameters \<open>a\<close> and \<open>b\<close>,
  into whose two argument inputs the blocks \<open>8\<close> and \<open>9\<close> are plugged.
\<close>

definition speak_site :: block where
  "speak_site = (init 2)\<lparr>varType := ''Animal'', varTypeIsSet := True, methods := [''speak''],
                   curValue := Some ''speak'', typeOfValue := Some ''method''\<rparr>"

definition feed_site :: block where
  "feed_site =
     (init 3)\<lparr>varType := ''Animal'', varTypeIsSet := True, methods := [''feed''],
       curValue := Some ''feed'', typeOfValue := Some ''method'', args := 2,
       argNames := Some [''a'', ''b''],
       inputList :=
         [\<lparr>input_name = [], input_type = DUMMY_INPUT,
            fieldRow = [(Some ''VAR'', FieldVariable [])], input_target = None\<rparr>,
          \<lparr>input_name = ''Data'', input_type = DUMMY_INPUT,
            fieldRow = [(Some ''METHODS'', FieldDropdown [(''feed()'', ''feed'')] ''feed'')],
            input_target = None\<rparr>,
          \<lparr>input_name = ''ARG0'', input_type = INPUT_VALUE,
            fieldRow = [(None, FieldLabel ''a'')], input_target = Some 8\<rparr>,
          \<lparr>input_name = ''ARG1'', input_type = INPUT_VALUE,
            fieldRow = [(None, FieldLabel ''b'')], input_target = Some 9\<rparr>]\<rparr>"

section \<open>Properties\<close>

subsection \<open>arraysEqual\<close>

lemma arraysEqual_loop_true:
  "(\<forall>j < n. arr1 ! j = arr2 ! j) \<Longrightarrow> arraysEqual_loop arr1 arr2 n = JSTrue"
  by (induction n) auto

lemma arraysEqual_loop_last:
  "k < n \<Longrightarrow> arr1 ! k \<noteq> arr2 ! k \<Longrightarrow> (\<forall>j. k < j \<and> j < n \<longrightarrow> arr1 ! j = arr2 ! j)
    \<Longrightarrow> arraysEqual_loop arr1 arr2 n = JSNumber k"
proof (induction n)
  case 0
  then show ?case by simp
next
  case (Suc n)
  show ?case
  proof (cases "k = n")
    case True
    with Suc.prems show ?thesis by simp
  next
    case False
    with Suc.prems have "k < n" by simp
    moreover from Suc.prems False have "arr1 ! n = arr2 ! n" by simp
    ultimately show ?thesis using Suc by simp
  qed
qed

lemma differing_index_exists:
  assumes "length arr1 = length arr2" and "arr1 \<noteq> arr2"
  shows "\<exists>k < length arr1. arr1 ! k \<noteq> arr2 ! k \<and>
           (\<forall>j. k < j \<and> j < length arr1 \<longrightarrow> arr1 ! j = arr2 ! j)"
proof -
  let ?D = "{i. i < length arr1 \<and> arr1 ! i \<noteq> arr2 ! i}"
  from assms have "?D \<noteq> {}" by (auto simp: list_eq_iff_nth_eq)
  moreover have fin: "finite ?D" by simp
  ultimately have "Max ?D \<in> ?D" by (rule Max_in[rotated])
  moreover have "\<forall>j. Max ?D < j \<and> j < length arr1 \<longrightarrow> arr1 ! j = arr2 ! j"
  proof (intro allI impI)
    fix j assume j: "Max ?D < j \<and> j < length arr1"
    show "arr1 ! j = arr2 ! j"
    proof (rule ccontr)
      assume "arr1 ! j \<noteq> arr2 ! j"
      with j have "j \<in> ?D" by simp
      with fin have "j \<le> Max ?D" by (rule Max_ge)
      with j show False by simp
    qed
  qed
  ultimately show ?thesis by blast
qed

text \<open>
  Claim C10. \<open>arraysEqual\<close> answers \<^verbatim>\<open>false\<close> when the lengths differ and
  \<^verbatim>\<open>true\<close> when the lists are equal; otherwise it answers the largest index at which
  the lists differ, so the one differing position when there is only one, the index
  \<open>0\<close> included.
\<close>

theorem arraysEqual_result:
  "(length arr1 \<noteq> length arr2 \<longrightarrow> arraysEqual arr1 arr2 = JSFalse) \<and>
   (arr1 = arr2 \<longrightarrow> arraysEqual arr1 arr2 = JSTrue) \<and>
   (length arr1 = length arr2 \<and> arr1 \<noteq> arr2 \<longrightarrow>
      (\<exists>k < length arr1. arraysEqual arr1 arr2 = JSNumber k \<and> arr1 ! k \<noteq> arr2 ! k \<and>
         (\<forall>j. k < j \<and> j < length arr1 \<longrightarrow> arr1 ! j = arr2 ! j))) \<and>
   (length arr1 = length arr2 \<and> i < length arr1 \<and> arr1 ! i \<noteq> arr2 ! i \<and>
      (\<forall>j < length arr1. j \<noteq> i \<longrightarrow> arr1 ! j = arr2 ! j) \<longrightarrow>
      arraysEqual arr1 arr2 = JSNumber i)"
proof (intro conjI impI)
  assume "length arr1 \<noteq> length arr2"
  then show "arraysEqual arr1 arr2 = JSFalse" by (simp add: arraysEqual_def)
next
  assume "arr1 = arr2"
  then show "arraysEqual arr1 arr2 = JSTrue"
    by (simp add: arraysEqual_def arraysEqual_loop_true)
next
  assume a: "length arr1 = length arr2 \<and> arr1 \<noteq> arr2"
  then obtain k where k: "k < length arr1" "arr1 ! k \<noteq> arr2 ! k"
    "\<forall>j. k < j \<and> j < length arr1 \<longrightarrow> arr1 ! j = arr2 ! j"
    using differing_index_exists by blast
  then have "arraysEqual_loop arr1 arr2 (length arr1) = JSNumber k"
    by (intro arraysEqual_loop_last)
  with a k show "\<exists>k < length arr1. arraysEqual arr1 arr2 = JSNumber k \<and> arr1 ! k \<noteq> arr2 ! k \<and>
         (\<forall>j. k < j \<and> j < length arr1 \<longrightarrow> arr1 ! j = arr2 ! j)"
    by (auto simp: arraysEqual_def)
next
  assume a: "length arr1 = length arr2 \<and> i < length arr1 \<and> arr1 ! i \<noteq> arr2 ! i \<and>
      (\<forall>j < length arr1. j \<noteq> i \<longrightarrow> arr1 ! j = arr2 ! j)"
  then have "arraysEqual_loop arr1 arr2 (length arr1) = JSNumber i"
    by (intro arraysEqual_loop_last) auto
  with a show "arraysEqual arr1 arr2 = JSNumber i" by (simp add: arraysEqual_def)
qed

theorem arraysEqual_result_witness:
  "arraysEqual [''a''] [''a'', ''b''] = JSFalse \<and>
   arraysEqual [''a'', ''b''] [''a'', ''b''] = JSTrue \<and>
   arraysEqual [''a'', ''b'', ''c''] [''x'', ''y'', ''c''] = JSNumber 1 \<and>
   arraysEqual [''a'', ''b''] [''x'', ''b''] = JSNumber 0"
proof -
  have "arraysEqual [''a''] [''a'', ''b''] = JSFalse"
    using arraysEqual_result [of "[''a'']" "[''a'', ''b'']" 0] by simp
  moreover have "arraysEqual [''a'', ''b''] [''a'', ''b''] = JSTrue"
    using arraysEqual_result [of "[''a'', ''b'']" "[''a'', ''b'']" 0] by simp
  moreover have "arraysEqual [''a'', ''b'', ''c''] [''x'', ''y'', ''c''] = JSNumber 1"
    using arraysEqual_result [of "[''a'', ''b'', ''c'']" "[''x'', ''y'', ''c'']" 1]
    by (auto simp: nth_Cons' less_Suc_eq split: if_splits)
  moreover have "arraysEqual [''a'', ''b''] [''x'', ''b''] = JSNumber 0"
    using arraysEqual_result [of "[''a'', ''b'']" "[''x'', ''b'']" 0]
    by (simp add: nth_Cons')
  ultimately show ?thesis by simp
qed

subsection \<open>Digits\<close>
lemma digit_char_is_digit: "d < 10 \<Longrightarrow> is_digit (digit_char d)"
  by (simp add: is_digit_def digit_char_def nth_Cons' )

lemma digit_value_digit_char: "d < 10 \<Longrightarrow> digit_value (digit_char d) = d"
proof -
  assume "d < 10"
  then have "d \<in> {0,1,2,3,4,5,6,7,8,9}" by auto
  then show ?thesis by (auto simp: digit_value_def digit_char_def)
qed

lemma dec_is_digit: "c \<in> set (dec n) \<Longrightarrow> is_digit c"
proof (induction n arbitrary: c rule: dec.induct)
  case (1 n)
  show ?case
  proof (cases "n < 10")
    case True
    with "1.prems" show ?thesis by (simp add: dec.simps[of n] digit_char_is_digit)
  next
    case False
    with "1.prems" "1.IH" show ?thesis
      by (auto simp: dec.simps[of n] digit_char_is_digit)
  qed
qed

lemma dec_nonempty: "dec n \<noteq> []"
  by (subst dec.simps) simp

lemma parseInt_snoc: "parseInt (ds @ [c]) = 10 * parseInt ds + digit_value c"
  by (simp add: parseInt_def)

lemma parseInt_dec: "parseInt (dec n) = n"
proof (induction n rule: dec.induct)
  case (1 n)
  show ?case
  proof (cases "n < 10")
    case True
    then show ?thesis by (simp add: dec.simps[of n] parseInt_def digit_value_digit_char)
  next
    case False
    with 1 show ?thesis
      by (simp add: dec.simps[of n] parseInt_snoc digit_value_digit_char)
  qed
qed

lemma dec_inj: "dec m = dec n \<Longrightarrow> m = n"
  by (metis parseInt_dec)

subsection \<open>The candidates of the resolver\<close>

lemma takeWhile_rev_stem:
  assumes "p = [] \<or> \<not> is_digit (last p)" and "\<forall>c \<in> set ds. is_digit c"
  shows "takeWhile is_digit (rev (p @ ds)) = rev ds"
    and "dropWhile is_digit (rev (p @ ds)) = rev p"
proof -
  have tw: "takeWhile is_digit (rev p) = []"
    using assms(1) by (cases p rule: rev_cases) auto
  have dw: "dropWhile is_digit (rev p) = rev p"
    using assms(1) by (cases p rule: rev_cases) auto
  from assms(2) have all: "\<And>x. x \<in> set (rev ds) \<Longrightarrow> is_digit x" by simp
  show "takeWhile is_digit (rev (p @ ds)) = rev ds"
    using takeWhile_append2[of "rev ds" is_digit "rev p"] all tw by simp
  show "dropWhile is_digit (rev (p @ ds)) = rev p"
    using dropWhile_append2[of "rev ds" is_digit "rev p"] all dw by simp
qed

lemma match_digits_stem:
  assumes "stem_ok p" and "ds \<noteq> []" and "\<forall>c \<in> set ds. is_digit c"
  shows "match_digits (p @ ds) = Some (p, ds)"
  using assms takeWhile_rev_stem[of p ds]
  by (simp add: match_digits_def stem_ok_def Let_def)

lemma match_digits_Some:
  assumes "match_digits name = Some (r1, r2)"
  shows "name = r1 @ r2" and "stem_ok r1" and "r2 \<noteq> []" and "\<forall>c \<in> set r2. is_digit c"
proof -
  from assms have r2: "r2 = rev (takeWhile is_digit (rev name))"
    and r1: "r1 = rev (dropWhile is_digit (rev name))"
    and ne: "r2 \<noteq> []" and lt: "\<forall>c \<in> set r1. \<not> is_line_terminator c"
    by (auto simp: match_digits_def Let_def split: if_splits)
  show "name = r1 @ r2"
    using takeWhile_dropWhile_id[of is_digit "rev name"] r1 r2
    by (metis rev_append rev_rev_ident)
  show "r2 \<noteq> []" by (rule ne)
  show "\<forall>c \<in> set r2. is_digit c" using r2 by (auto dest: set_takeWhileD)
  have "r1 = [] \<or> \<not> is_digit (last r1)"
  proof (cases "dropWhile is_digit (rev name)")
    case Nil
    with r1 show ?thesis by simp
  next
    case (Cons x xs)
    then have "\<not> is_digit x" using hd_dropWhile[of is_digit "rev name"] by auto
    with Cons r1 show ?thesis by simp
  qed
  with lt show "stem_ok r1" by (simp add: stem_ok_def)
qed

lemma next_name_stem:
  assumes "stem_ok p" and "v < two53"
  shows "next_name (p @ dec v) = Returns (p @ dec (v + 1))"
proof -
  have "match_digits (p @ dec v) = Some (p, dec v)"
    using assms(1) dec_nonempty dec_is_digit by (intro match_digits_stem) auto
  then show ?thesis using assms(2)
    by (simp add: next_name_def plus_one_def parseInt_dec)
qed

lemma next_name_first:
  assumes "match_digits name = Some (r1, r2)" and "parseInt r2 < two53"
  shows "next_name name = Returns (r1 @ dec (parseInt r2 + 1))"
  using assms by (simp add: next_name_def plus_one_def)

lemma match_digits_twos:
  assumes "\<exists>c \<in> set (rev (dropWhile is_digit (rev name))). is_line_terminator c"
  shows "match_digits (name @ replicate j (CHR ''2'')) = None"
proof -
  have "dropWhile is_digit (rev (name @ replicate j (CHR ''2''))) = dropWhile is_digit (rev name)"
    using dropWhile_append2[of "replicate j (CHR ''2'')" is_digit "rev name"]
    by (simp add: is_digit_def)
  with assms show ?thesis by (simp add: match_digits_def Let_def)
qed

lemma next_name_twos:
  assumes "\<exists>c \<in> set (rev (dropWhile is_digit (rev name))). is_line_terminator c"
  shows "next_name (name @ replicate j (CHR ''2'')) = Returns (name @ replicate (Suc j) (CHR ''2''))"
  using match_digits_twos[OF assms, of j]
  by (simp add: next_name_def replicate_append_same)

lemma findLegalName_loop_reaches:
  assumes "\<And>j. j < k \<Longrightarrow> isNameUsed equals (c j) workspace block type"
    and "\<And>j. j < k \<Longrightarrow> next_name (c j) = Returns (c (Suc j))"
    and "\<not> isNameUsed equals (c k) workspace block type"
  shows "findLegalName_loop equals workspace block type (c 0) = Some (Returns (c k))"
  using assms
proof (induction k arbitrary: c)
  case 0
  then show ?case by (subst findLegalName_loop.simps) (simp add: isLegalName_def)
next
  case (Suc k)
  have "findLegalName_loop equals workspace block type (c (Suc 0)) = Some (Returns (c (Suc k)))"
    using Suc.IH[of "\<lambda>j. c (Suc j)"] Suc.prems by simp
  moreover have "isNameUsed equals (c 0) workspace block type" using Suc.prems(1) by simp
  moreover have "next_name (c 0) = Returns (c (Suc 0))" using Suc.prems(2) by simp
  ultimately show ?case
    by (subst findLegalName_loop.simps) (simp add: isLegalName_def)
qed

lemma class_not_method: "''class'' \<noteq> ''method''"
  by simp

lemma defined_name_here:
  "(\<exists>u. defined_name type b = Some u \<and> equals u name) \<longleftrightarrow>
       (type = ''class'' \<and> (case getClassDef b of None \<Rightarrow> False | Some procName \<Rightarrow> equals procName name)) \<or>
       (type = ''method'' \<and> (case getMethodDef b of None \<Rightarrow> False | Some (procName, _) \<Rightarrow> equals procName name))"
proof (cases "type = ''class''")
  case True
  then show ?thesis using class_not_method
    by (cases "getClassDef b") (simp_all add: defined_name_def)
next
  case False
  then show ?thesis
    by (cases "getMethodDef b") (auto simp: defined_name_def)
qed

lemma isNameUsed_loop_iff:
  "isNameUsed_loop equals name blocks opt_exclude type \<longleftrightarrow>
     (\<exists>b \<in> set blocks. block_id b \<noteq> block_id opt_exclude \<and>
        (\<exists>u. defined_name type b = Some u \<and> equals u name))"
proof (induction blocks)
  case Nil
  then show ?case by simp
next
  case (Cons b blocks)
  show ?case
  proof (cases "block_id b = block_id opt_exclude")
    case True
    with Cons show ?thesis by simp
  next
    case False
    define hit where "hit \<longleftrightarrow> (\<exists>u. defined_name type b = Some u \<and> equals u name)"
    have "isNameUsed_loop equals name (b # blocks) opt_exclude type \<longleftrightarrow>
        (type = ''class'' \<and> (case getClassDef b of None \<Rightarrow> False | Some procName \<Rightarrow> equals procName name)) \<or>
        (type = ''method'' \<and> (case getMethodDef b of None \<Rightarrow> False | Some (procName, _) \<Rightarrow> equals procName name)) \<or>
        isNameUsed_loop equals name blocks opt_exclude type"
      using False by simp blast
    then have "isNameUsed_loop equals name (b # blocks) opt_exclude type \<longleftrightarrow>
        hit \<or> isNameUsed_loop equals name blocks opt_exclude type"
      unfolding hit_def defined_name_here by blast
    also have "\<dots> \<longleftrightarrow> hit \<or> (\<exists>b \<in> set blocks. block_id b \<noteq> block_id opt_exclude \<and>
        (\<exists>u. defined_name type b = Some u \<and> equals u name))"
      using Cons.IH by simp
    also have "\<dots> \<longleftrightarrow> (\<exists>b \<in> set (b # blocks). block_id b \<noteq> block_id opt_exclude \<and>
        (\<exists>u. defined_name type b = Some u \<and> equals u name))"
      using False unfolding hit_def by simp
    finally show ?thesis .
  qed
qed

lemma isNameUsed_iff:
  "isNameUsed equals name workspace opt_exclude type \<longleftrightarrow>
     (\<exists>b \<in> set (getAllBlocks workspace). block_id b \<noteq> block_id opt_exclude \<and>
        (\<exists>u. defined_name type b = Some u \<and> equals u name))"
  by (simp add: isNameUsed_def isNameUsed_loop_iff)

lemma free_candidate:
  assumes sep: "\<And>u i j. i \<le> N \<Longrightarrow> j \<le> N \<Longrightarrow> equals u (c i) \<Longrightarrow> equals u (c j) \<Longrightarrow> i = j"
    and len: "length (getAllBlocks workspace) \<le> N"
  shows "\<exists>k \<le> N. \<not> isNameUsed equals (c k) workspace block type \<and>
           (\<forall>j < k. isNameUsed equals (c j) workspace block type)"
proof -
  define used where "used k = isNameUsed equals (c k) workspace block type" for k
  define hits where "hits k b \<longleftrightarrow> b \<in> set (getAllBlocks workspace) \<and>
        (\<exists>u. defined_name type b = Some u \<and> equals u (c k))" for k b
  have ex: "\<exists>k \<le> N. \<not> used k"
  proof (rule ccontr)
    assume "\<not> (\<exists>k \<le> N. \<not> used k)"
    then have all: "\<And>k. k \<le> N \<Longrightarrow> used k" by blast
    have "\<forall>k \<in> {..N}. \<exists>b. hits k b"
    proof
      fix k assume "k \<in> {..N}"
      then have "used k" using all by simp
      then show "\<exists>b. hits k b"
        unfolding used_def hits_def isNameUsed_iff by blast
    qed
    then have "\<exists>f. \<forall>k \<in> {..N}. hits k (f k)" by (rule bchoice)
    then obtain f where f: "\<And>k. k \<in> {..N} \<Longrightarrow> hits k (f k)" by blast
    have "inj_on f {..N}"
    proof (rule inj_onI)
      fix i j assume i: "i \<in> {..N}" and j: "j \<in> {..N}" and fij: "f i = f j"
      from f[OF i] obtain u where u: "defined_name type (f i) = Some u" "equals u (c i)"
        unfolding hits_def by blast
      from f[OF j] obtain w where w: "defined_name type (f j) = Some w" "equals w (c j)"
        unfolding hits_def by blast
      from u(1) w(1) fij have "u = w" by simp
      with w(2) have uj: "equals u (c j)" by simp
      from i j have "i \<le> N" "j \<le> N" by simp_all
      then show "i = j" using u(2) uj by (rule sep)
    qed
    then have "card (f ` {..N}) = card {..N}" by (rule card_image)
    then have c1: "card (f ` {..N}) = Suc N" by simp
    have "f ` {..N} \<subseteq> set (getAllBlocks workspace)"
    proof
      fix b assume "b \<in> f ` {..N}"
      then obtain k where "k \<in> {..N}" "b = f k" by blast
      then show "b \<in> set (getAllBlocks workspace)" using f[of k] unfolding hits_def by simp
    qed
    then have c2: "card (f ` {..N}) \<le> card (set (getAllBlocks workspace))"
      by (rule card_mono[rotated]) simp
    have c3: "card (set (getAllBlocks workspace)) \<le> length (getAllBlocks workspace)"
      by (rule card_length)
    from c1 c2 c3 len show False by linarith
  qed
  then obtain k0 where k0: "k0 \<le> N" "\<not> used k0" by blast
  define k where "k = (LEAST k. \<not> used k)"
  have 1: "\<not> used k" unfolding k_def using k0(2) by (rule LeastI)
  have 2: "k \<le> k0" unfolding k_def using k0(2) by (rule Least_le)
  have 3: "\<And>j. j < k \<Longrightarrow> used j" unfolding k_def using not_less_Least by blast
  from 1 2 3 k0(1) have "k \<le> N \<and> \<not> used k \<and> (\<forall>j < k. used j)" by simp
  then show ?thesis unfolding used_def by blast
qed

lemma map_norm_digits:
  assumes "\<And>c. is_digit c \<Longrightarrow> norm c = c"
  shows "map norm (dec n) = dec n"
  using assms dec_is_digit by (intro map_idI) simp

lemma resolves_from_stem:
  assumes eq: "\<And>a b. equals a b \<longleftrightarrow> map norm a = map norm b"
    and dig: "\<And>c. is_digit c \<Longrightarrow> norm c = c"
    and stem: "stem_ok p"
    and range: "v + length (getAllBlocks workspace) \<le> two53"
  shows "\<exists>k \<le> length (getAllBlocks workspace).
           findLegalName_loop equals workspace block type (p @ dec v) = Some (Returns (p @ dec (v + k))) \<and>
           \<not> isNameUsed equals (p @ dec (v + k)) workspace block type"
proof -
  let ?N = "length (getAllBlocks workspace)"
  let ?c = "\<lambda>j. p @ dec (v + j)"
  have sep: "\<And>u i j. i \<le> ?N \<Longrightarrow> j \<le> ?N \<Longrightarrow> equals u (?c i) \<Longrightarrow> equals u (?c j) \<Longrightarrow> i = j"
  proof -
    fix u i j assume "equals u (?c i)" "equals u (?c j)"
    then have "map norm (?c i) = map norm (?c j)" using eq by simp
    then have "dec (v + i) = dec (v + j)" by (simp add: map_norm_digits[OF dig])
    then show "i = j" using dec_inj[of "v + i" "v + j"] by simp
  qed
  have "\<exists>k \<le> ?N. \<not> isNameUsed equals (?c k) workspace block type \<and>
           (\<forall>j < k. isNameUsed equals (?c j) workspace block type)"
  proof (rule free_candidate[where c = ?c and N = ?N])
    fix u i j
    assume "i \<le> ?N" "j \<le> ?N" "equals u (?c i)" "equals u (?c j)"
    then show "i = j" by (rule sep)
  qed simp
  then obtain k where k: "k \<le> ?N" "\<not> isNameUsed equals (?c k) workspace block type"
    "\<forall>j < k. isNameUsed equals (?c j) workspace block type" by auto
  have step: "\<And>j. j < k \<Longrightarrow> next_name (?c j) = Returns (?c (Suc j))"
  proof -
    fix j assume "j < k"
    with k(1) range have "v + j < two53" by simp
    then show "next_name (?c j) = Returns (?c (Suc j))"
      using next_name_stem[OF stem, of "v + j"] by simp
  qed
  have "findLegalName_loop equals workspace block type (?c 0) = Some (Returns (?c k))"
    using k(3) step k(2) by (intro findLegalName_loop_reaches) auto
  with k show ?thesis by auto
qed

lemma resolves_by_twos:
  assumes eq: "\<And>a b. equals a b \<longleftrightarrow> map norm a = map norm b"
    and lt: "\<exists>c \<in> set (rev (dropWhile is_digit (rev name))). is_line_terminator c"
  shows "\<exists>k \<le> length (getAllBlocks workspace).
           findLegalName_loop equals workspace block type name =
             Some (Returns (name @ replicate k (CHR ''2''))) \<and>
           \<not> isNameUsed equals (name @ replicate k (CHR ''2'')) workspace block type"
proof -
  let ?N = "length (getAllBlocks workspace)"
  let ?c = "\<lambda>j. name @ replicate j (CHR ''2'')"
  have sep: "\<And>u i j. i \<le> ?N \<Longrightarrow> j \<le> ?N \<Longrightarrow> equals u (?c i) \<Longrightarrow> equals u (?c j) \<Longrightarrow> i = j"
  proof -
    fix u i j assume "equals u (?c i)" "equals u (?c j)"
    then have "map norm (?c i) = map norm (?c j)" using eq by simp
    then have "length (map norm (?c i)) = length (map norm (?c j))" by simp
    then show "i = j" by simp
  qed
  have "\<exists>k \<le> ?N. \<not> isNameUsed equals (?c k) workspace block type \<and>
           (\<forall>j < k. isNameUsed equals (?c j) workspace block type)"
  proof (rule free_candidate[where c = ?c and N = ?N])
    fix u i j
    assume "i \<le> ?N" "j \<le> ?N" "equals u (?c i)" "equals u (?c j)"
    then show "i = j" by (rule sep)
  qed simp
  then obtain k where k: "k \<le> ?N" "\<not> isNameUsed equals (?c k) workspace block type"
    "\<forall>j < k. isNameUsed equals (?c j) workspace block type" by auto
  have "findLegalName_loop equals workspace block type (?c 0) = Some (Returns (?c k))"
    using k(3) next_name_twos[OF lt] k(2) by (intro findLegalName_loop_reaches) auto
  with k show ?thesis by auto
qed

lemma findLegalName_loop_total:
  assumes eq: "\<And>a b. equals a b \<longleftrightarrow> map norm a = map norm b"
    and dig: "\<And>c. is_digit c \<Longrightarrow> norm c = c"
    and range: "suffix_value name + length (getAllBlocks workspace) < two53"
  shows "\<exists>legal. findLegalName_loop equals workspace block type name = Some (Returns legal) \<and>
           \<not> isNameUsed equals legal workspace block type"
proof (cases "isNameUsed equals name workspace block type")
  case False
  then have "findLegalName_loop equals workspace block type name = Some (Returns name)"
    by (subst findLegalName_loop.simps) (simp add: isLegalName_def)
  with False show ?thesis by simp
next
  case used: True
  show ?thesis
  proof (cases "\<exists>c \<in> set (rev (dropWhile is_digit (rev name))). is_line_terminator c")
    case True
    then show ?thesis using resolves_by_twos[OF eq] by blast
  next
    case noterm: False
    show ?thesis
    proof (cases "match_digits name")
      case None
      with noterm have nodigits: "takeWhile is_digit (rev name) = []"
        by (simp add: match_digits_def Let_def split: if_splits)
      then have dw: "dropWhile is_digit (rev name) = rev name"
        using takeWhile_dropWhile_id[of is_digit "rev name"] by simp
      have "name = [] \<or> \<not> is_digit (last name)"
        using nodigits by (cases name rule: rev_cases) (auto split: if_splits)
      with noterm dw have stem: "stem_ok name" by (simp add: stem_ok_def)
      have d2: "dec 2 = ''2''" by (simp add: dec.simps digit_char_def)
      from None have nxt: "next_name name = Returns (name @ dec 2)"
        by (simp add: next_name_def d2)
      from range None have "2 + length (getAllBlocks workspace) \<le> two53"
        by (simp add: suffix_value_def)
      from resolves_from_stem[OF eq dig stem this, of block type]
      obtain k where k: "findLegalName_loop equals workspace block type (name @ dec 2) =
          Some (Returns (name @ dec (2 + k)))"
        "\<not> isNameUsed equals (name @ dec (2 + k)) workspace block type" by auto
      have "findLegalName_loop equals workspace block type name =
          findLegalName_loop equals workspace block type (name @ dec 2)"
        using used nxt by (subst findLegalName_loop.simps) (simp add: isLegalName_def)
      with k show ?thesis by simp
    next
      case (Some r)
      obtain r1 r2 where r: "r = (r1, r2)" by (cases r)
      with Some have m: "match_digits name = Some (r1, r2)" by simp
      from match_digits_Some[OF m] have stem: "stem_ok r1" by simp
      from range m have v: "parseInt r2 < two53"
        and rg: "(parseInt r2 + 1) + length (getAllBlocks workspace) \<le> two53"
        by (simp_all add: suffix_value_def)
      have nxt: "next_name name = Returns (r1 @ dec (parseInt r2 + 1))"
        using next_name_first[OF m v] .
      from resolves_from_stem[OF eq dig stem rg, of block type]
      obtain k where k: "findLegalName_loop equals workspace block type (r1 @ dec (parseInt r2 + 1)) =
          Some (Returns (r1 @ dec (parseInt r2 + 1 + k)))"
        "\<not> isNameUsed equals (r1 @ dec (parseInt r2 + 1 + k)) workspace block type" by auto
      have "findLegalName_loop equals workspace block type name =
          findLegalName_loop equals workspace block type (r1 @ dec (parseInt r2 + 1))"
        using used nxt by (subst findLegalName_loop.simps) (simp add: isLegalName_def)
      with k show ?thesis by simp
    qed
  qed
qed


subsection \<open>The legal name\<close>

lemma findLegalName_loop_stuck:
  assumes used: "isNameUsed equals name workspace block type"
    and same: "next_name name = Returns name"
  shows "findLegalName_loop equals workspace block type name = None"
proof (cases "findLegalName_loop equals workspace block type name")
  case None
  then show ?thesis .
next
  case (Some y)
  define P where "P e w b t n (r :: string outcome) \<longleftrightarrow>
      \<not> (e = equals \<and> w = workspace \<and> b = block \<and> t = type \<and> n = name)" for e w b t n r
  have "P equals workspace block type name y"
  proof (rule findLegalName_loop.raw_induct[OF _ Some])
    fix f e w b t n r
    assume IH: "\<And>e w b t n r. f e w b t n = Some r \<Longrightarrow> P e w b t n r"
      and step: "(if \<not> isLegalName e n w b t then
          (case next_name n of
             UnsafeInteger \<Rightarrow> Some UnsafeInteger
           | Returns name' \<Rightarrow> f e w b t name')
        else Some (Returns n)) = Some r"
    show "P e w b t n r"
      unfolding P_def
    proof
      assume a: "e = equals \<and> w = workspace \<and> b = block \<and> t = type \<and> n = name"
      with step used same have "f equals workspace block type name = Some r"
        by (simp add: isLegalName_def)
      from IH[OF this] show False by (simp add: P_def)
    qed
  qed
  then show ?thesis by (simp add: P_def)
qed

lemma suffix_value_Car2: "suffix_value ''Car2'' = 2"
  by (simp add: suffix_value_def match_digits_def is_digit_def is_line_terminator_def parseInt_def digit_value_def)

text \<open>
  Claim C1, as amended. In a flyout \<open>findLegalName\<close> returns the proposed name as
  it is: it trims nothing (its callers \<open>renameClass\<close> and \<open>renameMethod\<close> trim the
  name before they call it). Outside a flyout it returns a name for which
  \<open>isNameUsed\<close> is false, so a name that no other block of the workspace defines for
  that kind, whenever the number at the end of the proposed name plus the number of
  blocks stays below \<open>2^53\<close>. The predicate that compares names is taken to compare
  them character by character up to a folding \<open>norm\<close> of characters that leaves the
  digits alone (the identity for an exact comparison, lower case for one that ignores
  case).
\<close>

theorem findLegalName_legal:
  assumes "\<And>a b. equals a b \<longleftrightarrow> map norm a = map norm b"
    and "\<And>c. is_digit c \<Longrightarrow> norm c = c"
    and "suffix_value name + length (getAllBlocks workspace) < two53"
  shows "(isInFlyout block \<longrightarrow>
            findLegalName equals name block workspace type = Some (Returns name)) \<and>
         (\<not> isInFlyout block \<longrightarrow>
            (\<exists>legal. findLegalName equals name block workspace type = Some (Returns legal) \<and>
               \<not> isNameUsed equals legal workspace block type \<and>
               (\<forall>b \<in> set (getAllBlocks workspace). block_id b \<noteq> block_id block \<longrightarrow>
                  (\<forall>u. defined_name type b = Some u \<longrightarrow> \<not> equals u legal))))"
proof (intro conjI impI)
  assume "isInFlyout block"
  then show "findLegalName equals name block workspace type = Some (Returns name)"
    by (simp add: findLegalName_def)
next
  assume nf: "\<not> isInFlyout block"
  from findLegalName_loop_total[OF assms, of block type]
  obtain legal where l: "findLegalName_loop equals workspace block type name = Some (Returns legal)"
    "\<not> isNameUsed equals legal workspace block type" by blast
  from l(2) have "\<forall>b \<in> set (getAllBlocks workspace). block_id b \<noteq> block_id block \<longrightarrow>
                  (\<forall>u. defined_name type b = Some u \<longrightarrow> \<not> equals u legal)"
    unfolding isNameUsed_iff by blast
  with l nf show "\<exists>legal. findLegalName equals name block workspace type = Some (Returns legal) \<and>
               \<not> isNameUsed equals legal workspace block type \<and>
               (\<forall>b \<in> set (getAllBlocks workspace). block_id b \<noteq> block_id block \<longrightarrow>
                  (\<forall>u. defined_name type b = Some u \<longrightarrow> \<not> equals u legal))"
    by (simp add: findLegalName_def)
qed

theorem findLegalName_legal_witness:
  "findLegalName (=) '' Car'' ((class_class 1 ''Car'' [] [])\<lparr>isInFlyout := True\<rparr>)
      (workspace_of [class_class 1 ''Car'' [] [], class_class 2 ''Car2'' [] []]) ''class''
     = Some (Returns '' Car'') \<and>
   (\<exists>legal. findLegalName (=) ''Car2'' (class_class 1 ''Car'' [] [])
      (workspace_of [class_class 1 ''Car'' [] [], class_class 2 ''Car2'' [] []]) ''class''
        = Some (Returns legal) \<and>
      \<not> isNameUsed (=) legal
           (workspace_of [class_class 1 ''Car'' [] [], class_class 2 ''Car2'' [] []])
           (class_class 1 ''Car'' [] []) ''class'')"
proof -
  let ?ws = "workspace_of [class_class 1 ''Car'' [] [], class_class 2 ''Car2'' [] []]"
  have eq: "\<And>a b. (a = b) \<longleftrightarrow> map id a = map id (b :: string)" by simp
  have dig: "\<And>c. is_digit c \<Longrightarrow> id c = c" by simp
  have r1: "suffix_value '' Car'' + length (getAllBlocks ?ws) < two53"
    by (simp add: suffix_value_def match_digits_def is_digit_def workspace_of_def two53_def)
  have r2: "suffix_value ''Car2'' + length (getAllBlocks ?ws) < two53"
    by (simp add: suffix_value_Car2 workspace_of_def two53_def)
  have f: "isInFlyout ((class_class 1 ''Car'' [] [])\<lparr>isInFlyout := True\<rparr>)" by simp
  have nf: "\<not> isInFlyout (class_class 1 ''Car'' [] [])"
    by (simp add: class_class_def plain_block_def)
  show ?thesis
    using findLegalName_legal[of "(=)" id "'' Car''" ?ws
        "(class_class 1 ''Car'' [] [])\<lparr>isInFlyout := True\<rparr>" "''class''", OF eq dig r1]
      findLegalName_legal[of "(=)" id "''Car2''" ?ws "class_class 1 ''Car'' [] []" "''class''",
        OF eq dig r2] f nf
    by blast
qed

text \<open>
  Claim C1 as stated fails in a flyout: the proposed name \<open>" Car"\<close> comes back with
  its leading space.
\<close>

theorem findLegalName_flyout_untrimmed:
  "findLegalName (=) '' Car'' ((class_class 1 ''Car'' [] [])\<lparr>isInFlyout := True\<rparr>)
      (workspace_of [class_class 1 ''Car'' [] []]) ''class''
     \<noteq> Some (Returns (trim '' Car''))"
  by (simp add: findLegalName_def trim_def is_space_def)

text \<open>
  The scenario of the specification: with the classes \<open>Car\<close> and \<open>Car2\<close>, renaming
  \<open>Car\<close> to \<open>Car2\<close> resolves to \<open>Car3\<close>.
\<close>

lemma next_name_Car2: "next_name ''Car2'' = Returns ''Car3''"
  by (simp add: next_name_def match_digits_def is_digit_def is_line_terminator_def plus_one_def
      parseInt_def digit_value_def two53_def dec.simps digit_char_def)

lemma scenario_Car3:
  "findLegalName (=) ''Car2'' (class_class 1 ''Car'' [] [])
      (workspace_of [class_class 1 ''Car'' [] [], class_class 2 ''Car2'' [] []]) ''class''
   = Some (Returns ''Car3'')"
proof -
  let ?ws = "workspace_of [class_class 1 ''Car'' [] [], class_class 2 ''Car2'' [] []]"
  let ?b = "class_class 1 ''Car'' [] []"
  have u2: "isNameUsed (=) ''Car2'' ?ws ?b ''class''"
    by (simp add: isNameUsed_def workspace_of_def class_class_def plain_block_def)
  have u3: "\<not> isNameUsed (=) ''Car3'' ?ws ?b ''class''"
    by (simp add: isNameUsed_def workspace_of_def class_class_def plain_block_def)
  have "findLegalName_loop (=) ?ws ?b ''class'' ''Car3'' = Some (Returns ''Car3'')"
    using u3 by (subst findLegalName_loop.simps) (simp add: isLegalName_def)
  then have "findLegalName_loop (=) ?ws ?b ''class'' ''Car2'' = Some (Returns ''Car3'')"
    using u2 next_name_Car2 by (subst findLegalName_loop.simps) (simp add: isLegalName_def)
  then show ?thesis by (simp add: findLegalName_def class_class_def plain_block_def)
qed

text \<open>
  A line feed before the digits keeps the regular expression from matching: the step
  appends \<open>2\<close> to the digits instead of incrementing them.
\<close>

lemma next_name_after_line_feed:
  "next_name (''A'' @ [CHR 0x0A] @ ''1'') = Returns (''A'' @ [CHR 0x0A] @ ''12'')"
  by (simp add: next_name_def match_digits_def is_digit_def is_line_terminator_def)

text \<open>
  Claim C5 at the input \<open>X9007199254740992\<close>: the name ends with the digits of
  \<open>2^53\<close>, and \<^verbatim>\<open>parseInt(r[2], 10) + 1\<close> is \<open>2^53\<close> again, so the step gives the
  same name back instead of a name with the number incremented by one.
\<close>

theorem next_name_at_two53:
  "next_name ''X9007199254740992'' = Returns ''X9007199254740992''"
  by (simp add: next_name_def match_digits_def is_digit_def is_line_terminator_def plus_one_def
      parseInt_def digit_value_def two53_def dec.simps digit_char_def)

text \<open>
  Claim C6 at the same input: when another class is called \<open>X9007199254740992\<close>, the
  loop of \<open>findLegalName\<close> tries that one candidate for ever and does not return.
\<close>

theorem findLegalName_diverges:
  "findLegalName (=) ''X9007199254740992'' (class_class 1 ''Car'' [] [])
      (workspace_of [class_class 1 ''Car'' [] [], class_class 2 ''X9007199254740992'' [] []])
      ''class'' = None"
proof -
  let ?ws = "workspace_of [class_class 1 ''Car'' [] [], class_class 2 ''X9007199254740992'' [] []]"
  let ?b = "class_class 1 ''Car'' [] []"
  have u: "isNameUsed (=) ''X9007199254740992'' ?ws ?b ''class''"
    by (simp add: isNameUsed_def workspace_of_def class_class_def plain_block_def)
  have n: "next_name ''X9007199254740992'' = Returns ''X9007199254740992''"
    by (simp add: next_name_def match_digits_def is_digit_def is_line_terminator_def plus_one_def
      parseInt_def digit_value_def two53_def dec.simps digit_char_def)
  have "findLegalName_loop (=) ?ws ?b ''class'' ''X9007199254740992'' = None"
    using u n by (rule findLegalName_loop_stuck)
  then show ?thesis by (simp add: findLegalName_def class_class_def plain_block_def)
qed


subsection \<open>Evaluating the examples\<close>

lemmas example_defs = workspace_of_def class_class_def class_function_def init_def plain_block_def

lemmas resolver_defs = findLegalName_def isLegalName_def isNameUsed_def next_name_def
  match_digits_def is_digit_def is_line_terminator_def plus_one_def parseInt_def
  digit_value_def two53_def digit_char_def trim_def is_space_def


subsection \<open>Member queries\<close>

lemma getMethods_loop_absent:
  assumes "\<forall>b \<in> set blocks. getStatement b \<longrightarrow> getClassDef b \<noteq> None"
    and "\<forall>b \<in> set blocks. getClassDef b \<noteq> Some classname"
  shows "getMethods_loop blocks (Some classname) ms = Inr ms"
  using assms by (induction blocks arbitrary: ms) (auto split: option.splits)

lemma getClassVariables_loop_absent:
  assumes "\<forall>b \<in> set blocks. getStatement b \<longrightarrow> getClassDef b \<noteq> None"
    and "\<forall>b \<in> set blocks. getClassDef b \<noteq> Some classname"
  shows "getClassVariables_loop blocks (Some classname) vs = Inr vs"
  using assms by (induction blocks arbitrary: vs) (auto split: option.splits)

text \<open>
  Claim C9. When no block of the workspace is a class called \<open>classname\<close>,
  \<open>getMethods\<close> and \<open>getClassVariables\<close> return the empty list and throw nothing.
  The workspace is one in which every block that has \<open>getStatement\<close> (the function the
  two queries probe) also has \<open>getClassDef\<close> (the function they then call): the class
  blocks.
\<close>

theorem member_queries_absent_class:
  assumes "\<forall>b \<in> set (getAllBlocks workspace). getStatement b \<longrightarrow> getClassDef b \<noteq> None"
    and "\<forall>b \<in> set (getAllBlocks workspace). getClassDef b \<noteq> Some classname"
  shows "getMethods workspace (Some classname) = Inr [] \<and>
         getClassVariables workspace (Some classname) = Inr []"
  using assms
  by (simp add: getMethods_def getClassVariables_def getMethods_loop_absent
      getClassVariables_loop_absent)

theorem member_queries_absent_class_witness:
  "getMethods (workspace_of [class_class 1 ''Car'' [''drive''] [''wheels''], init 2]) (Some ''Boat'') = Inr [] \<and>
   getClassVariables (workspace_of [class_class 1 ''Car'' [''drive''] [''wheels''], init 2]) (Some ''Boat'') = Inr []"
  using member_queries_absent_class[of "workspace_of [class_class 1 ''Car'' [''drive''] [''wheels''], init 2]" "''Boat''"]
  by (simp add: workspace_of_def class_class_def init_def plain_block_def)


subsection \<open>Renaming a class or a method\<close>

lemma renameClass_loop_blocks:
  "fst (renameClass_loop equals oldName legalName blocks) =
     map (\<lambda>b. if is_object_variables_get b then site_renameClass equals b oldName legalName else b) blocks"
  by (induction blocks) (auto simp: Let_def split: prod.splits)

lemma site_renameClass_reports:
  assumes "equals oldName oldName" and "oldName \<noteq> newName"
  shows "(varTypeIsSet b \<and> equals oldName (varType b) \<longrightarrow>
            getClassName (site_renameClass equals b oldName newName) = Some newName) \<and>
         getClassName (site_renameClass equals b oldName newName) \<noteq> Some oldName"
  using assms by (auto simp: site_renameClass_def getClassName_def)

text \<open>
  Claim C2, as amended. When \<open>renameClass\<close> is called on the field of a class called
  \<open>oldName\<close> with a proposed name that, trimmed, differs from \<open>oldName\<close> and resolves
  to a legal name \<open>newName\<close> other than \<open>oldName\<close>, it returns \<open>newName\<close>; every
  reference site whose type is final (\<open>varTypeIsSet\<close>) and whose \<open>varType\<close> the name
  comparison equates with \<open>oldName\<close> reports \<open>newName\<close> afterwards, and no reference
  site reports \<open>oldName\<close>.
\<close>

theorem renameClass_propagates:
  assumes "findLegalName equals (trim name) sourceBlock workspace ''class'' = Some (Returns newName)"
    and "oldName \<noteq> trim name" and "oldName \<noteq> newName" and "equals oldName oldName"
  shows "\<exists>workspace' calls.
           renameClass equals oldName sourceBlock workspace name =
             Some (Returns (newName, workspace', calls)) \<and>
           length (getAllBlocks workspace') = length (getAllBlocks workspace) \<and>
           (\<forall>i < length (getAllBlocks workspace).
              is_object_variables_get (getAllBlocks workspace ! i) \<longrightarrow>
                (varTypeIsSet (getAllBlocks workspace ! i) \<and>
                 equals oldName (varType (getAllBlocks workspace ! i)) \<longrightarrow>
                   getClassName (getAllBlocks workspace' ! i) = Some newName) \<and>
                getClassName (getAllBlocks workspace' ! i) \<noteq> Some oldName)"
proof -
  obtain blocks calls where loop:
    "renameClass_loop equals oldName newName (getAllBlocks workspace) = (blocks, calls)"
    by (cases "renameClass_loop equals oldName newName (getAllBlocks workspace)")
  then have blocks: "blocks = map (\<lambda>b. if is_object_variables_get b
        then site_renameClass equals b oldName newName else b) (getAllBlocks workspace)"
    using renameClass_loop_blocks[of equals oldName newName "getAllBlocks workspace"] by simp
  let ?ws' = "renameScope (workspace\<lparr>getAllBlocks := blocks\<rparr>) oldName newName"
  have r: "renameClass equals oldName sourceBlock workspace name = Some (Returns (newName, ?ws', calls))"
    using assms(1-3) loop by (simp add: renameClass_def Let_def)
  have b': "getAllBlocks ?ws' = blocks" by (simp add: renameScope_def)
  have "\<forall>i < length (getAllBlocks workspace).
              is_object_variables_get (getAllBlocks workspace ! i) \<longrightarrow>
                (varTypeIsSet (getAllBlocks workspace ! i) \<and>
                 equals oldName (varType (getAllBlocks workspace ! i)) \<longrightarrow>
                   getClassName (blocks ! i) = Some newName) \<and>
                getClassName (blocks ! i) \<noteq> Some oldName"
    using site_renameClass_reports[where equals = equals and oldName = oldName and newName = newName]
      assms(3,4) by (simp add: blocks)
  with r b' blocks show ?thesis by simp
qed

lemma legal_Dog:
  "findLegalName (=) ''Dog'' (class_class 1 ''Cat'' [] [])
     (workspace_of [class_class 1 ''Cat'' [] [],
        (init 2)\<lparr>varType := ''Cat'', varTypeIsSet := True\<rparr>,
        (init 3)\<lparr>varType := ''Cat'', varTypeIsSet := True\<rparr>,
        (init 4)\<lparr>varType := ''Cat'', varTypeIsSet := True\<rparr>]) ''class''
   = Some (Returns ''Dog'')"
  by (subst findLegalName_def, subst findLegalName_loop.simps)
     (simp add: resolver_defs example_defs)

theorem renameClass_propagates_witness:
  "\<exists>workspace' calls.
     renameClass (=) ''Cat'' (class_class 1 ''Cat'' [] [])
       (workspace_of [class_class 1 ''Cat'' [] [],
          (init 2)\<lparr>varType := ''Cat'', varTypeIsSet := True\<rparr>,
          (init 3)\<lparr>varType := ''Cat'', varTypeIsSet := True\<rparr>,
          (init 4)\<lparr>varType := ''Cat'', varTypeIsSet := True\<rparr>]) '' Dog ''
       = Some (Returns (''Dog'', workspace', calls)) \<and>
     getClassName (getAllBlocks workspace' ! 1) = Some ''Dog'' \<and>
     getClassName (getAllBlocks workspace' ! 2) = Some ''Dog'' \<and>
     getClassName (getAllBlocks workspace' ! 3) = Some ''Dog''"
proof -
  let ?ws = "workspace_of [class_class 1 ''Cat'' [] [],
          (init 2)\<lparr>varType := ''Cat'', varTypeIsSet := True\<rparr>,
          (init 3)\<lparr>varType := ''Cat'', varTypeIsSet := True\<rparr>,
          (init 4)\<lparr>varType := ''Cat'', varTypeIsSet := True\<rparr>]"
  have t: "trim '' Dog '' = ''Dog''" by (simp add: trim_def is_space_def)
  have 1: "findLegalName (=) (trim '' Dog '') (class_class 1 ''Cat'' [] []) ?ws ''class''
      = Some (Returns ''Dog'')"
    unfolding t by (rule legal_Dog)
  have 2: "''Cat'' \<noteq> trim '' Dog ''" unfolding t by simp
  have 3: "''Cat'' \<noteq> ''Dog''" by simp
  have 4: "(''Cat'' :: string) = ''Cat''" by simp
  from renameClass_propagates[of "(=)" "'' Dog ''" "class_class 1 ''Cat'' [] []" ?ws "''Dog''" "''Cat''",
      OF 1 2 3 4]
  obtain workspace' calls where w:
    "renameClass (=) ''Cat'' (class_class 1 ''Cat'' [] []) ?ws '' Dog '' =
       Some (Returns (''Dog'', workspace', calls))"
    "\<forall>i < length (getAllBlocks ?ws).
       is_object_variables_get (getAllBlocks ?ws ! i) \<longrightarrow>
         (varTypeIsSet (getAllBlocks ?ws ! i) \<and> ''Cat'' = varType (getAllBlocks ?ws ! i) \<longrightarrow>
            getClassName (getAllBlocks workspace' ! i) = Some ''Dog'') \<and>
         getClassName (getAllBlocks workspace' ! i) \<noteq> Some ''Cat''"
    by blast
  have len: "length (getAllBlocks ?ws) = 4" by (simp add: workspace_of_def)
  have "getClassName (getAllBlocks workspace' ! 1) = Some ''Dog''"
    using w(2)[rule_format, of 1] by (simp add: example_defs is_object_variables_get_def)
  moreover have "getClassName (getAllBlocks workspace' ! 2) = Some ''Dog''"
    using w(2)[rule_format, of 2] by (simp add: example_defs is_object_variables_get_def)
  moreover have "getClassName (getAllBlocks workspace' ! 3) = Some ''Dog''"
    using w(2)[rule_format, of 3] by (simp add: example_defs is_object_variables_get_def)
  ultimately show ?thesis using w(1) by blast
qed


text \<open>
  Claim C2 as stated fails in two ways. A site whose \<open>varType\<close> is \<open>Cat\<close> but whose
  type is not final yet is passed over when the class \<open>Cat\<close> becomes \<open>Dog\<close>. And when
  the field of a second class called \<open>Car\<close> proposes \<open>Car\<close>, the name resolves to the
  new name \<open>Car2\<close>, which is returned, but the sites bound to \<open>Car\<close> stay as they are.
\<close>

theorem renameClass_sites_left:
  "renameClass (=) ''Cat'' (class_class 1 ''Cat'' [] [])
     (workspace_of [class_class 1 ''Cat'' [] [], (init 2)\<lparr>varType := ''Cat''\<rparr>]) ''Dog''
   = Some (Returns (''Dog'',
       workspace_of [class_class 1 ''Cat'' [] [], (init 2)\<lparr>varType := ''Cat''\<rparr>], [])) \<and>
   renameClass (=) ''Car'' (class_class 1 ''Car'' [] [])
     (workspace_of [class_class 1 ''Car'' [] [], class_class 2 ''Car'' [] [],
        (init 3)\<lparr>varType := ''Car'', varTypeIsSet := True\<rparr>]) ''Car''
   = Some (Returns (''Car2'',
       workspace_of [class_class 1 ''Car'' [] [], class_class 2 ''Car'' [] [],
        (init 3)\<lparr>varType := ''Car'', varTypeIsSet := True\<rparr>], []))"
proof -
  have a: "findLegalName (=) ''Dog'' (class_class 1 ''Cat'' [] [])
     (workspace_of [class_class 1 ''Cat'' [] [], (init 2)\<lparr>varType := ''Cat''\<rparr>]) ''class''
     = Some (Returns ''Dog'')"
    by (subst findLegalName_def, subst findLegalName_loop.simps)
       (simp add: resolver_defs example_defs)
  have b: "findLegalName (=) ''Car'' (class_class 1 ''Car'' [] [])
     (workspace_of [class_class 1 ''Car'' [] [], class_class 2 ''Car'' [] [],
        (init 3)\<lparr>varType := ''Car'', varTypeIsSet := True\<rparr>]) ''class''
     = Some (Returns ''Car2'')"
  proof -
    have "findLegalName_loop (=)
       (workspace_of [class_class 1 ''Car'' [] [], class_class 2 ''Car'' [] [],
          (init 3)\<lparr>varType := ''Car'', varTypeIsSet := True\<rparr>])
       (class_class 1 ''Car'' [] []) ''class'' ''Car2'' = Some (Returns ''Car2'')"
      by (subst findLegalName_loop.simps) (simp add: resolver_defs example_defs)
    then show ?thesis
      by (subst findLegalName_def, subst findLegalName_loop.simps)
         (simp add: resolver_defs example_defs dec.simps)
  qed
  have t: "trim ''Dog'' = ''Dog''" "trim ''Car'' = ''Car''" by (simp_all add: trim_def is_space_def)
  show ?thesis
    unfolding renameClass_def Let_def t a b
    by (simp add: renameScope_def is_object_variables_get_def site_renameClass_def example_defs)
qed


text \<open>
  Claim C4. When the legal name found is the old name, \<open>renameClass\<close> and
  \<open>renameMethod\<close> return it and change nothing: no block is renamed or notified, and
  the variables keep their types (\<open>renameScope\<close> is still called, with the old name
  twice). When the proposed name, trimmed, is the current name of the class,
  \<open>renameClass\<close> leaves every block as it is.
\<close>

theorem rename_same_name_noop:
  "(findLegalName equals (trim name) sourceBlock workspace ''class'' = Some (Returns oldName) \<longrightarrow>
      renameClass equals oldName sourceBlock workspace name = Some (Returns (oldName, workspace, []))) \<and>
   (findLegalName equals (trim name) sourceBlock workspace ''method'' = Some (Returns oldName) \<longrightarrow>
      renameMethod equals oldName sourceBlock workspace name = Some (Returns (oldName, []))) \<and>
   (trim name = oldName \<and>
    findLegalName equals (trim name) sourceBlock workspace ''class'' = Some (Returns legalName) \<longrightarrow>
      (\<exists>workspace'. renameClass equals oldName sourceBlock workspace name =
           Some (Returns (legalName, workspace', [])) \<and>
         getAllBlocks workspace' = getAllBlocks workspace))"
proof -
  have "map (\<lambda>v. if var_type v = oldName then v\<lparr>var_type := oldName\<rparr> else v)
          (variableMap workspace) = variableMap workspace"
    by (rule map_idI) auto
  then have same: "renameScope workspace oldName oldName = workspace"
    by (simp add: renameScope_def)
  have blocks: "\<And>w a b. getAllBlocks (renameScope w a b) = getAllBlocks w"
    by (simp add: renameScope_def)
  show ?thesis
    by (auto simp: renameClass_def renameMethod_def Let_def same blocks)
qed

theorem rename_same_name_noop_witness:
  "renameClass (=) ''Car'' (class_class 1 ''Car'' [] [])
     (workspace_of [class_class 1 ''Car'' [] [], (init 2)\<lparr>varType := ''Car'', varTypeIsSet := True\<rparr>]) '' Car''
   = Some (Returns (''Car'',
       workspace_of [class_class 1 ''Car'' [] [], (init 2)\<lparr>varType := ''Car'', varTypeIsSet := True\<rparr>], [])) \<and>
   renameMethod (=) ''drive'' (class_function 3 ''class_function_return'' ''drive'' [])
     (workspace_of [class_function 3 ''class_function_return'' ''drive'' []]) ''drive''
   = Some (Returns (''drive'', []))"
proof -
  let ?ws = "workspace_of [class_class 1 ''Car'' [] [], (init 2)\<lparr>varType := ''Car'', varTypeIsSet := True\<rparr>]"
  let ?wm = "workspace_of [class_function 3 ''class_function_return'' ''drive'' []]"
  have t: "trim '' Car'' = ''Car''" "trim ''drive'' = ''drive''"
    by (simp_all add: trim_def is_space_def)
  have a: "findLegalName (=) (trim '' Car'') (class_class 1 ''Car'' [] []) ?ws ''class''
      = Some (Returns ''Car'')"
    unfolding t by (subst findLegalName_def, subst findLegalName_loop.simps)
       (simp add: resolver_defs example_defs)
  have b: "findLegalName (=) (trim ''drive'') (class_function 3 ''class_function_return'' ''drive'' [])
      ?wm ''method'' = Some (Returns ''drive'')"
    unfolding t by (subst findLegalName_def, subst findLegalName_loop.simps)
       (simp add: resolver_defs example_defs)
  show ?thesis
    using rename_same_name_noop[of "(=)" "'' Car''" "class_class 1 ''Car'' [] []" ?ws "''Car''" "''Car''"]
      rename_same_name_noop[of "(=)" "''drive''" "class_function 3 ''class_function_return'' ''drive'' []"
        ?wm "''drive''" "''drive''"] a b
    by blast
qed


subsection \<open>The dropdown of a reference site\<close>

lemma input_index_None: "input_index name inputs = None \<longleftrightarrow> name \<notin> input_name ` set inputs"
  by (induction inputs) auto

lemma getInput_None: "getInput b name = None \<longleftrightarrow> name \<notin> input_name ` set (inputList b)"
  by (auto simp: getInput_def find_None_iff)

lemma drop_Data:
  "\<exists>inputs. (if getInput b ''Data'' \<noteq> None then removeInput b ''Data'' else Inr b) =
     Inr (b\<lparr>inputList := inputs\<rparr>)"
proof (cases "getInput b ''Data'' = None")
  case True
  then have "(if getInput b ''Data'' \<noteq> None then removeInput b ''Data'' else Inr b) =
     Inr (b\<lparr>inputList := inputList b\<rparr>)" by simp
  then show ?thesis by blast
next
  case False
  then have "(if getInput b ''Data'' \<noteq> None then removeInput b ''Data'' else Inr b) =
     Inr (b\<lparr>inputList := remove_input ''Data'' (inputList b)\<rparr>)"
    by (simp add: removeInput_def)
  then show ?thesis by (rule exI)
qed

lemma moveInputBefore_found:
  assumes "name \<in> input_name ` set (inputList b)" and "r \<in> input_name ` set (inputList b)"
  shows "\<exists>inputs. moveInputBefore b name (Some r) = Inr (b\<lparr>inputList := inputs\<rparr>)"
proof (cases "name = r")
  case True
  then have "moveInputBefore b name (Some r) = Inr (b\<lparr>inputList := inputList b\<rparr>)"
    by (simp add: moveInputBefore_def)
  then show ?thesis by blast
next
  case False
  from assms(1) obtain i where i: "input_index name (inputList b) = Some i"
    using input_index_None[of name "inputList b"] by (cases "input_index name (inputList b)") auto
  from assms(2) obtain k where k: "input_index r (inputList b) = Some k"
    using input_index_None[of r "inputList b"] by (cases "input_index r (inputList b)") auto
  define ri where "ri = (if r = [] then length (inputList b) else k)"
  define at where "at = (if i < ri then ri - 1 else ri)"
  define rest where "rest = take i (inputList b) @ drop (Suc i) (inputList b)"
  have "moveInputBefore b name (Some r) =
      Inr (b\<lparr>inputList := take at rest @ [inputList b ! i] @ drop at rest\<rparr>)"
    using False i k by (simp add: moveInputBefore_def Let_def at_def rest_def ri_def)
  then show ?thesis by (rule exI)
qed

lemma select_current_cleared:
  assumes "(if curValue b = oldName then newName else curValue b) \<notin> set methodNames"
    and "\<not> array_includes (classVariables b)
           (if curValue b = oldName then newName else curValue b)"
  shows "select_current b methodNames oldName newName =
           (if curValue b = oldName then b\<lparr>curValue := newName\<rparr> else b)
             \<lparr>curValue := Some [], typeOfValue := Some []\<rparr>"
proof -
  define b1 where "b1 = (if curValue b = oldName then b\<lparr>curValue := newName\<rparr> else b)"
  have cv: "curValue b1 = (if curValue b = oldName then newName else curValue b)"
    by (simp add: b1_def)
  have cl: "classVariables b1 = classVariables b" by (simp add: b1_def)
  have cond: "curValue b1 \<notin> set methodNames \<and>
      \<not> array_includes (classVariables b1) (curValue b1)"
    unfolding cv cl using assms by simp
  show ?thesis
    unfolding select_current_def Let_def b1_def[symmetric] using cond
    by (simp add: truthy_def)
qed

lemma dropdown_options_cleared:
  assumes "curValue b = Some []" and "typeOfValue b = Some []"
  shows "dropdown_options b methodNames =
           map (\<lambda>v. (v, v)) (classVariables b) @
           map (\<lambda>(n, m). (m @ ''()'', m)) (zip methodNames (methods b))"
proof -
  have 1: "filter (\<lambda>v. \<not> (Some v = curValue b \<and> typeOfValue b = Some ''attribute''))
           (classVariables b) = classVariables b"
    using assms by simp
  have 2: "filter (\<lambda>(n, m). \<not> (n = curValue b \<and> typeOfValue b = Some ''method''))
          (zip methodNames (methods b)) = zip methodNames (methods b)"
    using assms by simp
  show ?thesis unfolding dropdown_options_def 1 2 using assms(1) by simp
qed

lemmas query_defs = getMethods_def getClassVariables_def getMethodAttributes_def getClassName_def

lemmas input_defs = getInput_def getFieldValue_def removeInput_def appendValueInput_def
  value_input_def appendDummyInput_def moveInputBefore_def

lemmas connection_defs = setOutput_def setPreviousStatement_def setNextStatement_def
  disconnect_def isConnected_def

text \<open>
  \<open>getDropDown\<close> reaches the clearing only when it rebuilds the dropdown of a class
  that has a member. The method \<open>speak\<close> is selected; when the class has no member
  left, and when \<open>speak\<close> was replaced by \<open>walk\<close> (the same number of methods, no
  rename passed), \<open>curValue\<close> stays \<open>speak\<close>.
\<close>

lemma getDropDown_guards:
  "getDropDown (workspace_of [class_class 1 ''Animal'' [] [], speak_site]) speak_site None None
     = Inr (speak_site\<lparr>methods := []\<rparr>) \<and>
   curValue (speak_site\<lparr>methods := []\<rparr>) = Some ''speak'' \<and>
   getDropDown (workspace_of [class_class 1 ''Animal'' [''walk''] [], speak_site]) speak_site None None
     = Inr speak_site \<and>
   curValue speak_site = Some ''speak''"
  by (simp add: getDropDown_def query_defs and_then_def truthy_def input_defs
      speak_site_def example_defs)

text \<open>
  \<open>setType\<close> on a bound site. For a return value the site ends with an output
  connection and no previous or next connection, whatever was connected; for none it
  ends with a previous and a next connection and no output, when the output was not
  connected.
\<close>

lemma setType_return:
  assumes "varType b \<noteq> []" and "varTypeIsSet b"
  shows "\<exists>b'. setType b True = Inr b' \<and> outputConnection b' \<noteq> None \<and>
           nextConnection b' = None \<and> previousConnection b' = None"
proof -
  define b1 where "b1 = (case nextConnection b of
                        None \<Rightarrow> b
                      | Some c \<Rightarrow> if isConnected c
                                   then b\<lparr>nextConnection := Some (disconnect c)\<rparr> else b)"
  define b2 where "b2 = (case previousConnection b1 of
                        None \<Rightarrow> b1
                      | Some c \<Rightarrow> if isConnected c
                                   then b1\<lparr>previousConnection := Some (disconnect c)\<rparr> else b1)"
  have n1: "\<forall>c. nextConnection b1 = Some c \<longrightarrow> \<not> isConnected c"
    by (simp add: b1_def disconnect_def isConnected_def split: option.splits)
  have p1: "previousConnection b1 = previousConnection b"
    by (simp add: b1_def split: option.splits)
  have n2: "nextConnection b2 = nextConnection b1"
    by (simp add: b2_def split: option.splits)
  have p2: "\<forall>c. previousConnection b2 = Some c \<longrightarrow> \<not> isConnected c"
    by (simp add: b2_def disconnect_def isConnected_def split: option.splits)
  define b3 where "b3 = (case nextConnection b2 of
           None \<Rightarrow> b2 | Some c \<Rightarrow> b2\<lparr>nextConnection := None\<rparr>)"
  have s3: "setNextStatement b2 False = Inr b3"
    using n1 unfolding n2[symmetric]
    by (simp add: setNextStatement_def b3_def split: option.splits)
  have p3: "previousConnection b3 = previousConnection b2"
    by (simp add: b3_def split: option.splits)
  define b4 where "b4 = (case previousConnection b3 of
           None \<Rightarrow> b3 | Some c \<Rightarrow> b3\<lparr>previousConnection := None\<rparr>)"
  have s4: "setPreviousStatement b3 False = Inr b4"
    using p2 unfolding p3[symmetric]
    by (simp add: setPreviousStatement_def b4_def split: option.splits)
  define b5 where "b5 = (case outputConnection b4 of
           None \<Rightarrow> b4\<lparr>outputConnection := Some (Connection None)\<rparr> | Some c \<Rightarrow> b4)"
  have s5: "setOutput b4 True = Inr b5"
    by (simp add: setOutput_def b5_def split: option.splits)
  have "setType b True = Inr b5"
    unfolding setType_def using assms
    by (simp add: Let_def b1_def[symmetric] b2_def[symmetric] and_then_def s3 s4 s5)
  moreover have "outputConnection b5 \<noteq> None" "nextConnection b5 = None"
    "previousConnection b5 = None"
    by (simp_all add: b5_def b4_def b3_def split: option.splits)
  ultimately show ?thesis by blast
qed

lemma setType_statement:
  assumes "varType b \<noteq> []" and "varTypeIsSet b"
    and "\<forall>c. outputConnection b = Some c \<longrightarrow> \<not> isConnected c"
  shows "\<exists>b'. setType b False = Inr b' \<and> outputConnection b' = None \<and>
           nextConnection b' \<noteq> None \<and> previousConnection b' \<noteq> None"
proof -
  define b1 where "b1 = b\<lparr>outputConnection := None\<rparr>"
  have s1: "setOutput b False = Inr b1"
    using assms(3) by (cases "outputConnection b") (simp_all add: setOutput_def b1_def)
  define b2 where "b2 = (case nextConnection b1 of
           None \<Rightarrow> b1\<lparr>nextConnection := Some (Connection None)\<rparr> | Some c \<Rightarrow> b1)"
  have s2: "setNextStatement b1 True = Inr b2"
    by (simp add: setNextStatement_def b2_def split: option.splits)
  define b3 where "b3 = (case previousConnection b2 of
           None \<Rightarrow> b2\<lparr>previousConnection := Some (Connection None)\<rparr> | Some c \<Rightarrow> b2)"
  have s3: "setPreviousStatement b2 True = Inr b3"
    by (simp add: setPreviousStatement_def b3_def split: option.splits)
  have "setType b False = Inr b3"
    unfolding setType_def using assms(1,2) by (simp add: and_then_def s1 s2 s3)
  moreover have "outputConnection b3 = None" "nextConnection b3 \<noteq> None"
    "previousConnection b3 \<noteq> None"
    by (simp_all add: b3_def b2_def b1_def split: option.splits)
  ultimately show ?thesis by blast
qed

text \<open>
  Claim C3 at a site whose output is connected (to the block \<open>7\<close>) and whose method
  has no return value: \<open>setType\<close> removes the output connection without
  disconnecting it first, and the removal fails.
\<close>

theorem setType_output_connected:
  "setType ((init 2)\<lparr>varType := ''Animal'', varTypeIsSet := True,
                      outputConnection := Some (Connection (Some 7))\<rparr>) False
     = Inl AssertionError"
  by (simp add: setType_def connection_defs and_then_def example_defs)

subsection \<open>The argument inputs\<close>

lemma dec_small: "dec 0 = ''0''" "dec 1 = ''1''" "dec 2 = ''2''" "dec 3 = ''3''"
  "dec (Suc 0) = ''1''" "dec (Suc (Suc 0)) = ''2''" "dec (Suc (Suc (Suc 0))) = ''3''"
  by (simp_all add: dec.simps digit_char_def)

lemmas onchange_defs = onchange_def onchange_method_def onchange_arguments_def
  onchange_attribute_def ARG_def
  find_methodBlock_def arraysEqual_names_def arraysEqual_def array_includes_def truthy_def
  and_then_def setType_def

text \<open>
  Claim C7 at a site with the argument inputs \<open>a\<close> and \<open>b\<close> when the parameters of
  the method become \<open>b\<close> and \<open>a\<close>: both slots differ, and \<open>onchange\<close> replaces the
  second one only. The first input keeps the label \<open>a\<close>, although the first parameter
  is \<open>b\<close> now.
\<close>

theorem onchange_swapped_parameters:
  "\<exists>b'. onchange
          (workspace_of [class_class 1 ''Animal'' [''feed''] [],
             class_function 2 ''class_function_return'' ''feed'' [''b'', ''a''], feed_site])
          feed_site = Inr b' \<and>
        argNames b' = Some [''b'', ''a''] \<and>
        map (\<lambda>i. (input_name i, fieldRow i, input_target i)) (inputList b') =
          [([], [(Some ''VAR'', FieldVariable [])], None),
           (''Data'', [(Some ''METHODS'', FieldDropdown [(''feed()'', ''feed'')] ''feed'')], None),
           (''ARG0'', [(None, FieldLabel ''a'')], Some 8),
           (''ARG1'', [(None, FieldLabel ''a'')], None)]"
  by (simp add: onchange_defs query_defs input_defs connection_defs feed_site_def example_defs
      dec_small)

text \<open>
  The scenario of the specification: the method gains the third parameter \<open>c\<close>, and
  the site ends with three argument inputs, the first two with their blocks.
\<close>

lemma onchange_gains_parameter:
  "\<exists>b'. onchange
          (workspace_of [class_class 1 ''Animal'' [''feed''] [],
             class_function 2 ''class_function_return'' ''feed'' [''a'', ''b'', ''c''], feed_site])
          feed_site = Inr b' \<and>
        args b' = 3 \<and> argNames b' = Some [''a'', ''b'', ''c''] \<and>
        map (\<lambda>i. (input_name i, fieldRow i, input_target i)) (inputList b') =
          [([], [(Some ''VAR'', FieldVariable [])], None),
           (''Data'', [(Some ''METHODS'', FieldDropdown [(''feed()'', ''feed'')] ''feed'')], None),
           (''ARG0'', [(None, FieldLabel ''a'')], Some 8),
           (''ARG1'', [(None, FieldLabel ''b'')], Some 9),
           (''ARG2'', [(None, FieldLabel ''c'')], None)]"
  by (simp add: onchange_defs query_defs input_defs connection_defs feed_site_def example_defs
      dec_small append_arguments.simps Let_def)


subsection \<open>What update and mutateCallers leave alone\<close>

text \<open>
  \<open>getDropDown\<close>, and with it \<open>update\<close> and \<open>mutateCallers\<close>, rebuilds the dropdown
  of a site and leaves its connections as they are: the shape of a site changes in
  \<open>setType\<close>, which \<open>onchange\<close> calls.
\<close>

lemma same_connections_refl: "same_connections b b"
  by (simp add: same_connections_def)

lemma same_connections_trans:
  "same_connections a b \<Longrightarrow> same_connections b c \<Longrightarrow> same_connections a c"
  by (simp add: same_connections_def)

lemma removeInput_connections: "removeInput b name = Inr b' \<Longrightarrow> same_connections b b'"
  by (cases "getInput b name = None") (simp_all add: removeInput_def same_connections_def, fastforce)

lemma moveInputBefore_connections:
  "moveInputBefore b name r = Inr b' \<Longrightarrow> same_connections b b'"
  unfolding moveInputBefore_def Let_def same_connections_def
  by (fastforce split: if_splits option.splits prod.splits)

lemma appendDummyInput_connections: "same_connections b (appendDummyInput b name fn f)"
  by (simp add: appendDummyInput_def same_connections_def)

lemma select_current_connections: "same_connections b (select_current b names oldName newName)"
  by (simp add: select_current_def Let_def same_connections_def)

lemma getDropDown_connections:
  assumes "getDropDown workspace b oldName newName = Inr b'"
  shows "same_connections b b'"
proof (cases "isInFlyout b")
  case True
  with assms show ?thesis by (simp add: getDropDown_def same_connections_def)
next
  case False
  from assms False obtain ms where ms: "getMethods workspace (getClassName b) = Inr ms"
    by (cases "getMethods workspace (getClassName b)") (simp_all add: getDropDown_def and_then_def)
  from assms False ms obtain cvs where cvs: "getClassVariables workspace (getClassName b) = Inr cvs"
    by (cases "getClassVariables workspace (getClassName b)")
       (simp_all add: getDropDown_def and_then_def)
  show ?thesis
  proof (cases "length (methods b) \<noteq> length ms \<or> truthy oldName \<or>
             length (classVariables b) \<noteq> length cvs")
    case skip: False
    with assms False ms cvs have "b' = b" by (simp add: getDropDown_def and_then_def)
    then show ?thesis by (simp add: same_connections_def)
  next
    case rebuild: True
    obtain inputs where b1: "(if getInput b ''Data'' \<noteq> None then removeInput b ''Data'' else Inr b) =
       Inr (b\<lparr>inputList := inputs\<rparr>)" using drop_Data by blast
    let ?b2 = "b\<lparr>inputList := inputs, methods := ms, classVariables := cvs\<rparr>"
    have s2: "same_connections b ?b2" by (simp add: same_connections_def)
    show ?thesis
    proof (cases "ms \<noteq> [] \<or> cvs \<noteq> []")
      case False
      with assms \<open>\<not> isInFlyout b\<close> ms cvs rebuild b1 have "b' = ?b2"
        by (simp add: getDropDown_def and_then_def del: not_None_eq)
      with s2 show ?thesis by simp
    next
      case members: True
      let ?names = "map (\<lambda>m. if Some m = oldName then newName else Some m) ms"
      let ?b3 = "select_current ?b2 ?names oldName newName"
      have s3: "same_connections b ?b3"
        using s2 select_current_connections[of ?b2 ?names oldName newName]
        by (rule same_connections_trans)
      from assms \<open>\<not> isInFlyout b\<close> ms cvs rebuild b1 members
      have r: "(case dropdown_options ?b3 ?names of
                 [] \<Rightarrow> Inl TypeError
               | (l, v) # _ \<Rightarrow>
                   (let b4 = appendDummyInput ?b3 ''Data'' ''METHODS''
                               (FieldDropdown (dropdown_options ?b3 ?names) v)
                    in if getInput b4 ''ARG0'' \<noteq> None
                       then moveInputBefore b4 ''Data'' (Some ''ARG0'')
                       else Inr b4)) = Inr b'"
        by (simp add: getDropDown_def and_then_def Let_def del: not_None_eq)
      then obtain l v rest where o: "dropdown_options ?b3 ?names = (l, v) # rest"
        by (cases "dropdown_options ?b3 ?names") auto
      let ?b4 = "appendDummyInput ?b3 ''Data'' ''METHODS'' (FieldDropdown ((l, v) # rest) v)"
      have s4: "same_connections b ?b4"
        using s3 appendDummyInput_connections by (rule same_connections_trans)
      from r have r4: "(if getInput ?b4 ''ARG0'' \<noteq> None
                       then moveInputBefore ?b4 ''Data'' (Some ''ARG0'')
                       else Inr ?b4) = Inr b'"
        unfolding o by (simp add: Let_def del: not_None_eq)
      show ?thesis
      proof (cases "getInput ?b4 ''ARG0'' = None")
        case True
        with r4 s4 show ?thesis by simp
      next
        case False
        with r4 have "moveInputBefore ?b4 ''Data'' (Some ''ARG0'') = Inr b'" by simp
        from s4 moveInputBefore_connections[OF this] show ?thesis by (rule same_connections_trans)
      qed
    qed
  qed
qed

lemma update_connections:
  "update workspace b oldName legalName = Inr b' \<Longrightarrow> same_connections b b'"
proof (cases "varTypeIsSet b")
  case True
  assume "update workspace b oldName legalName = Inr b'"
  with True have "getDropDown workspace b oldName legalName = Inr b'" by (simp add: update_def)
  then show ?thesis by (rule getDropDown_connections)
next
  case False
  assume "update workspace b oldName legalName = Inr b'"
  with False have "b' = b" by (simp add: update_def)
  then show ?thesis by (simp add: same_connections_refl)
qed

lemma mutateCallers_loop_connections:
  "mutateCallers_loop callers workspace = Inr workspace' \<Longrightarrow>
     length (getAllBlocks workspace') = length (getAllBlocks workspace) \<and>
     (\<forall>i < length (getAllBlocks workspace).
        same_connections (getAllBlocks workspace ! i) (getAllBlocks workspace' ! i))"
proof (induction callers arbitrary: workspace)
  case Nil
  then show ?case by (simp add: same_connections_refl)
next
  case (Cons c callers)
  from Cons.prems obtain b where b: "update workspace (getAllBlocks workspace ! c) None None = Inr b"
    and rest: "mutateCallers_loop callers (workspace\<lparr>getAllBlocks := (getAllBlocks workspace)[c := b]\<rparr>)
        = Inr workspace'"
    by (cases "update workspace (getAllBlocks workspace ! c) None None")
       (simp_all add: and_then_def)
  from update_connections[OF b] have sb: "same_connections (getAllBlocks workspace ! c) b" .
  from Cons.IH[OF rest] have len: "length (getAllBlocks workspace') = length (getAllBlocks workspace)"
    and all: "\<forall>i < length (getAllBlocks workspace).
        same_connections ((getAllBlocks workspace)[c := b] ! i) (getAllBlocks workspace' ! i)"
    by simp_all
  have "\<forall>i < length (getAllBlocks workspace).
        same_connections (getAllBlocks workspace ! i) (getAllBlocks workspace' ! i)"
  proof (intro allI impI)
    fix i assume i: "i < length (getAllBlocks workspace)"
    with all have a: "same_connections ((getAllBlocks workspace)[c := b] ! i) (getAllBlocks workspace' ! i)"
      by simp
    show "same_connections (getAllBlocks workspace ! i) (getAllBlocks workspace' ! i)"
    proof (cases "i = c")
      case True
      with i a have "same_connections b (getAllBlocks workspace' ! i)" by simp
      with sb True show ?thesis using same_connections_trans by blast
    next
      case False
      with a show ?thesis by simp
    qed
  qed
  with len show ?case by simp
qed

lemma mutateCallers_connections:
  "mutateCallers equals block workspace = Inr workspace' \<Longrightarrow>
     length (getAllBlocks workspace') = length (getAllBlocks workspace) \<and>
     (\<forall>i < length (getAllBlocks workspace).
        same_connections (getAllBlocks workspace ! i) (getAllBlocks workspace' ! i))"
  by (cases "getClassDef block") (simp_all add: mutateCallers_def mutateCallers_loop_connections)

text \<open>
  Whenever the output of a bound site is connected, \<open>setType\<close> for a method with no
  return value fails.
\<close>

lemma setType_statement_fails:
  assumes "varType b \<noteq> []" and "varTypeIsSet b"
    and "outputConnection b = Some c" and "isConnected c"
  shows "setType b False = Inl AssertionError"
  using assms by (simp add: setType_def setOutput_def and_then_def)


subsection \<open>The selection after the refresh of the dropdown\<close>

lemma remove_input_set:
  assumes "length (filter (\<lambda>i. input_name i = name) inputs) \<le> 1"
  shows "set (remove_input name inputs) = {i \<in> set inputs. input_name i \<noteq> name}"
  using assms
proof (induction inputs)
  case Nil
  then show ?case by simp
next
  case (Cons i inputs)
  show ?case
  proof (cases "input_name i = name")
    case True
    with Cons.prems have "filter (\<lambda>i. input_name i = name) inputs = []" by simp
    then have "\<forall>j \<in> set inputs. input_name j \<noteq> name" by (simp add: filter_empty_conv)
    with True show ?thesis by auto
  next
    case False
    with Cons show ?thesis by auto
  qed
qed

lemma input_index_less: "input_index name inputs = Some k \<Longrightarrow> k < length inputs"
  by (induction inputs arbitrary: k) (auto split: if_splits)

lemma set_move:
  assumes "i < length xs"
  shows "set (take at (take i xs @ drop (Suc i) xs) @ [xs ! i] @ drop at (take i xs @ drop (Suc i) xs))
           = set xs"
proof -
  let ?rest = "take i xs @ drop (Suc i) xs"
  have "set (take at ?rest @ [xs ! i] @ drop at ?rest) = set (take at ?rest @ drop at ?rest) \<union> {xs ! i}"
    by (simp only: set_append) auto
  also have "\<dots> = set ?rest \<union> {xs ! i}" by (simp only: append_take_drop_id)
  also have "\<dots> = set (take i xs @ [xs ! i] @ drop (Suc i) xs)" by (simp only: set_append) auto
  also have "take i xs @ [xs ! i] @ drop (Suc i) xs = xs"
    using id_take_nth_drop[OF assms] by simp
  finally show ?thesis .
qed

lemma moveInputBefore_set:
  assumes "moveInputBefore b name refName = Inr b'"
  shows "\<exists>inputs. b' = b\<lparr>inputList := inputs\<rparr> \<and> set inputs = set (inputList b)"
proof (cases "Some name = refName")
  case True
  with assms have "b' = b\<lparr>inputList := inputList b\<rparr>" by (simp add: moveInputBefore_def)
  then show ?thesis by blast
next
  case False
  define ref where "ref = (case refName of
                  None \<Rightarrow> Some (length (inputList b))
                | Some r \<Rightarrow> if r = [] then Some (length (inputList b))
                            else input_index r (inputList b))"
  have m: "moveInputBefore b name refName =
      (case (input_index name (inputList b), ref) of
           (Some inputIndex, Some refIndex) \<Rightarrow>
             (let moved = inputList b ! inputIndex;
                  rest = take inputIndex (inputList b) @ drop (Suc inputIndex) (inputList b);
                  at = (if inputIndex < refIndex then refIndex - 1 else refIndex)
              in Inr (b\<lparr>inputList := take at rest @ [moved] @ drop at rest\<rparr>))
         | _ \<Rightarrow> Inl AssertionError)"
    unfolding moveInputBefore_def ref_def using False by simp
  from assms obtain i where i: "input_index name (inputList b) = Some i"
    unfolding m by (cases "input_index name (inputList b)") auto
  from assms obtain r where r: "ref = Some r"
    unfolding m i by (cases ref) auto
  define at where "at = (if i < r then r - 1 else r)"
  from assms have b': "b' = b\<lparr>inputList :=
        take at (take i (inputList b) @ drop (Suc i) (inputList b)) @
        [inputList b ! i] @
        drop at (take i (inputList b) @ drop (Suc i) (inputList b))\<rparr>"
    unfolding m i r at_def by (simp only: prod.case option.case Let_def sum.inject)
  from i have "i < length (inputList b)" by (rule input_index_less)
  from set_move[OF this, of at] b' show ?thesis by blast
qed

lemma find_unique:
  assumes "x \<in> set xs" and "P x" and "\<forall>y \<in> set xs. P y \<longrightarrow> y = x"
  shows "find P xs = Some x"
proof -
  from assms(1,2) have "find P xs \<noteq> None" by (auto simp: find_None_iff)
  then obtain y where y: "find P xs = Some y" by blast
  then have "P y" and "y \<in> set xs" by (auto simp: find_Some_iff)
  with assms(3) have "y = x" by blast
  with y show ?thesis by simp
qed

lemma getFieldValue_unique:
  assumes "D \<in> set (inputList b)" and "fieldRow D = [(Some name, f)]"
    and "\<forall>i \<in> set (inputList b). i \<noteq> D \<longrightarrow> Some name \<notin> fst ` set (fieldRow i)"
  shows "getFieldValue b name = Some (field_value f)"
proof -
  let ?fs = "concat (map fieldRow (inputList b))"
  have 1: "(Some name, f) \<in> set ?fs" using assms(1,2) by force
  have 2: "\<forall>y \<in> set ?fs. (case y of (n, g) \<Rightarrow> n = Some name) \<longrightarrow> y = (Some name, f)"
  proof (intro ballI impI)
    fix y assume y: "y \<in> set ?fs" and p: "case y of (n, g) \<Rightarrow> n = Some name"
    from y obtain i where i: "i \<in> set (inputList b)" and yi: "y \<in> set (fieldRow i)" by auto
    from p yi have "Some name \<in> fst ` set (fieldRow i)" by force
    with assms(3) i have "i = D" by blast
    with yi assms(2) show "y = (Some name, f)" by simp
  qed
  have "find (\<lambda>(n, g). n = Some name) ?fs = Some (Some name, f)"
    by (rule find_unique[OF 1 _ 2]) simp
  then show ?thesis by (simp add: getFieldValue_def)
qed

lemma setType_frame:
  assumes "setType b r = Inr b'"
  shows "inputList b' = inputList b \<and> curValue b' = curValue b \<and> classVariables b' = classVariables b"
  using assms
  by (auto simp: setType_def and_then_def Let_def setOutput_def setNextStatement_def
      setPreviousStatement_def split: if_splits option.splits sum.splits)

lemma remove_arguments_curValue:
  "remove_arguments n b = Inr b' \<Longrightarrow> curValue b' = curValue b"
proof (induction n b rule: remove_arguments.induct)
  case (1 n b)
  show ?case
  proof (cases "args b > n")
    case False
    with 1(2) show ?thesis by (simp add: remove_arguments.simps)
  next
    case True
    with 1(2) obtain b1 where r: "removeInput (b\<lparr>args := args b - 1\<rparr>) (ARG (args b - 1)) = Inr b1"
      and rest: "remove_arguments n b1 = Inr b'"
      by (subst (asm) remove_arguments.simps) (auto split: sum.splits)
    from r have "curValue b1 = curValue b" by (auto simp: removeInput_def split: if_splits)
    with 1(1)[OF True r rest] show ?thesis by simp
  qed
qed

lemma append_arguments_curValue:
  "append_arguments as b = Inr b' \<Longrightarrow> curValue b' = curValue b"
proof (induction as b rule: append_arguments.induct)
  case (1 as b)
  show ?case
  proof (cases "args b < length as")
    case False
    with 1(2) show ?thesis by (simp add: append_arguments.simps)
  next
    case True
    with 1(2) obtain b1 where r: "moveInputBefore (appendValueInput b (ARG (args b)) (as ! args b))
                (ARG (args b)) None = Inr b1"
      and rest: "append_arguments as (b1\<lparr>args := args b1 + 1\<rparr>) = Inr b'"
      by (subst (asm) append_arguments.simps) (auto split: sum.splits)
    from moveInputBefore_set[OF r] have "curValue b1 = curValue b"
      by (auto simp: appendValueInput_def)
    with 1(1)[OF True r rest] show ?thesis by simp
  qed
qed

lemma and_then_Inr: "and_then m f = Inr y \<Longrightarrow> \<exists>x. m = Inr x \<and> f x = Inr y"
  by (cases m) (simp_all add: and_then_def)

lemma removeInput_curValue: "removeInput b name = Inr b' \<Longrightarrow> curValue b' = curValue b"
  by (auto simp: removeInput_def split: if_splits)

lemma onchange_arguments_curValue:
  assumes "onchange_arguments b2 arguments = Inr b'"
  shows "curValue b' = curValue b2"
proof -
  from and_then_Inr[OF assms[unfolded onchange_arguments_def]]
  obtain b3 where s1: "(case arguments of
          None \<Rightarrow> Inr b2
        | Some as \<Rightarrow>
            if args b2 \<noteq> length as then
              (if args b2 > length as then remove_arguments (length as) b2
               else append_arguments as b2)
            else Inr b2) = Inr b3"
    and s2: "and_then
            (case arraysEqual_names (argNames b3) arguments of
               JSNumber count \<Rightarrow>
                 and_then (removeInput b3 (ARG count)) (\<lambda>b4.
                   let b5 = appendValueInput b4 (ARG count) (the arguments ! count)
                   in if getInput b5 (ARG (count + 1)) \<noteq> None
                      then moveInputBefore b5 (ARG count)
                             (Some (ARG (count + 1)))
                      else Inr b5)
             | _ \<Rightarrow> Inr b3)
            (\<lambda>b6. Inr (b6\<lparr>argNames := arguments\<rparr>)) = Inr b'"
    by blast
  from s1 have c3: "curValue b3 = curValue b2"
    by (auto split: option.splits if_splits
        dest: remove_arguments_curValue append_arguments_curValue)
  from and_then_Inr[OF s2] obtain b6 where s3: "(case arraysEqual_names (argNames b3) arguments of
               JSNumber count \<Rightarrow>
                 and_then (removeInput b3 (ARG count)) (\<lambda>b4.
                   let b5 = appendValueInput b4 (ARG count) (the arguments ! count)
                   in if getInput b5 (ARG (count + 1)) \<noteq> None
                      then moveInputBefore b5 (ARG count)
                             (Some (ARG (count + 1)))
                      else Inr b5)
             | _ \<Rightarrow> Inr b3) = Inr b6"
    and b': "b' = b6\<lparr>argNames := arguments\<rparr>"
    by auto
  have c6: "curValue b6 = curValue b3"
  proof (cases "arraysEqual_names (argNames b3) arguments")
    case (JSNumber count)
    with s3 have "and_then (removeInput b3 (ARG count)) (\<lambda>b4.
                   let b5 = appendValueInput b4 (ARG count) (the arguments ! count)
                   in if getInput b5 (ARG (count + 1)) \<noteq> None
                      then moveInputBefore b5 (ARG count)
                             (Some (ARG (count + 1)))
                      else Inr b5) = Inr b6" by simp
    from and_then_Inr[OF this] obtain b4 where r: "removeInput b3 (ARG count) = Inr b4"
      and m: "(let b5 = appendValueInput b4 (ARG count) (the arguments ! count)
                   in if getInput b5 (ARG (count + 1)) \<noteq> None
                      then moveInputBefore b5 (ARG count)
                             (Some (ARG (count + 1)))
                      else Inr b5) = Inr b6"
      by blast
    define b5 where "b5 = appendValueInput b4 (ARG count) (the arguments ! count)"
    have c5: "curValue b5 = curValue b4" by (simp add: b5_def appendValueInput_def)
    from m have m': "(if getInput b5 (ARG (count + 1)) \<noteq> None
                      then moveInputBefore b5 (ARG count) (Some (ARG (count + 1)))
                      else Inr b5) = Inr b6"
      unfolding Let_def b5_def .
    have "curValue b6 = curValue b5"
    proof (cases "getInput b5 (ARG (count + 1)) = None")
      case True
      with m' show ?thesis by simp
    next
      case False
      with m' have "moveInputBefore b5 (ARG count) (Some (ARG (count + 1))) = Inr b6" by simp
      from moveInputBefore_set[OF this] show ?thesis by auto
    qed
    with c5 removeInput_curValue[OF r] show ?thesis by simp
  next
    case JSTrue
    with s3 show ?thesis by simp
  next
    case JSFalse
    with s3 show ?thesis by simp
  qed
  from b' c6 c3 show ?thesis by simp
qed

lemma onchange_adopts:
  assumes run: "onchange workspace b = Inr b'" and bound: "varType b \<noteq> []" "varTypeIsSet b"
  shows "curValue b' = getFieldValue b ''METHODS''"
proof (cases "truthy (getFieldValue b ''METHODS'') \<and> \<not> isInFlyout b \<and>
              \<not> array_includes (classVariables b) (getFieldValue b ''METHODS'')")
  case True
  then obtain m where m: "getFieldValue b ''METHODS'' = Some m"
    by (cases "getFieldValue b ''METHODS''") (auto simp: truthy_def)
  from run bound True have "onchange_method workspace b (the (getFieldValue b ''METHODS'')) = Inr b'"
    by (simp add: onchange_def)
  then have "onchange_method workspace b m = Inr b'" by (simp add: m)
  from and_then_Inr[OF this[unfolded onchange_method_def Let_def]]
  obtain b1 where "onchange_arguments (b1\<lparr>curValue := Some m\<rparr>)
                    (getMethodAttributes workspace m) = Inr b'"
    by blast
  from onchange_arguments_curValue[OF this] show ?thesis by (simp add: m)
next
  case False
  with run bound have "onchange_attribute b = Inr b'" by (simp add: onchange_def Let_def)
  from and_then_Inr[OF this[unfolded onchange_attribute_def]]
  obtain b1 where s: "setType (b\<lparr>typeOfValue := Some ''attribute''\<rparr>) True = Inr b1"
    and r: "remove_arguments 0 (b1\<lparr>curValue := getFieldValue b1 ''METHODS''\<rparr>) = Inr b'"
    by blast
  from setType_frame[OF s] have "inputList b1 = inputList b" by simp
  then have "getFieldValue b1 ''METHODS'' = getFieldValue b ''METHODS''"
    by (simp add: getFieldValue_def)
  with remove_arguments_curValue[OF r] show ?thesis by simp
qed

lemma drop_Data_set:
  assumes "length (filter (\<lambda>i. input_name i = ''Data'') (inputList b)) \<le> 1"
  shows "\<exists>inputs. (if getInput b ''Data'' \<noteq> None then removeInput b ''Data'' else Inr b) =
           Inr (b\<lparr>inputList := inputs\<rparr>) \<and>
         set inputs = {i \<in> set (inputList b). input_name i \<noteq> ''Data''}"
proof (cases "getInput b ''Data'' = None")
  case True
  then have 1: "(if getInput b ''Data'' \<noteq> None then removeInput b ''Data'' else Inr b) =
     Inr (b\<lparr>inputList := inputList b\<rparr>)" by simp
  from True have "''Data'' \<notin> input_name ` set (inputList b)" by (simp add: getInput_None)
  then have "\<And>i. i \<in> set (inputList b) \<Longrightarrow> input_name i \<noteq> ''Data''"
    by (metis imageI)
  then have 2: "set (inputList b) = {i \<in> set (inputList b). input_name i \<noteq> ''Data''}" by blast
  from 1 2 show ?thesis by blast
next
  case False
  then have 1: "(if getInput b ''Data'' \<noteq> None then removeInput b ''Data'' else Inr b) =
     Inr (b\<lparr>inputList := remove_input ''Data'' (inputList b)\<rparr>)"
    by (simp add: removeInput_def)
  from 1 remove_input_set[OF assms] show ?thesis by blast
qed

lemma method_options:
  "map (\<lambda>(n, m). f m) (zip (map g ms) ms) = map f ms"
  by (induction ms) simp_all

lemma hd_member_options:
  assumes "ms \<noteq> [] \<or> cvs \<noteq> []"
  shows "\<exists>l rest. map (\<lambda>v. (v, v)) cvs @ map (\<lambda>m. (m @ ''()'', m)) ms = (l, hd (cvs @ ms)) # rest"
proof (cases cvs)
  case (Cons v vs)
  then show ?thesis by simp
next
  case Nil
  with assms obtain m ms' where "ms = m # ms'" by (cases ms) auto
  with Nil show ?thesis by simp
qed

text \<open>
  Claim C8, as amended. When \<open>getDropDown\<close> rebuilds the dropdown (the number of
  methods or of attributes changed, or a rename is passed) and the class has at least
  one method or attribute, a selected member that, after the translation of the old
  name, is in neither the list of method names nor the list of attributes is cleared:
  \<open>curValue\<close> and \<open>typeOfValue\<close> become the empty string. The block stays, and
  nothing else of it changes but its lists of methods and attributes and its input
  \<open>Data\<close>: the new dropdown lists the attributes, then the methods, and shows the
  first of them, a member of the class. That member takes the place of the selection
  at the next \<open>onchange\<close> of the bound site that completes: \<open>curValue\<close> becomes
  the member that the dropdown shows.
\<close>

theorem getDropDown_clears:
  assumes flyout: "\<not> isInFlyout b"
    and wf: "dropdown_in_Data b"
    and ms: "getMethods workspace (getClassName b) = Inr ms"
    and cvs: "getClassVariables workspace (getClassName b) = Inr cvs"
    and rebuilt: "length (methods b) \<noteq> length ms \<or> truthy oldName \<or>
                  length (classVariables b) \<noteq> length cvs"
    and members: "ms \<noteq> [] \<or> cvs \<noteq> []"
    and gone_m: "(if curValue b = oldName then newName else curValue b) \<notin>
                   set (map (\<lambda>m. if Some m = oldName then newName else Some m) ms)"
    and gone_a: "\<not> array_includes cvs (if curValue b = oldName then newName else curValue b)"
  shows "\<exists>b'. getDropDown workspace b oldName newName = Inr b' \<and>
           b' = b\<lparr>methods := ms, classVariables := cvs, curValue := Some [],
                  typeOfValue := Some [], inputList := inputList b'\<rparr> \<and>
           set (inputList b') =
             insert \<lparr>input_name = ''Data'', input_type = DUMMY_INPUT,
                      fieldRow = [(Some ''METHODS'',
                        FieldDropdown (map (\<lambda>v. (v, v)) cvs @ map (\<lambda>m. (m @ ''()'', m)) ms)
                          (hd (cvs @ ms)))],
                      input_target = None\<rparr>
               {i \<in> set (inputList b). input_name i \<noteq> ''Data''} \<and>
           hd (cvs @ ms) \<in> set cvs \<union> set ms \<and>
           getFieldValue b' ''METHODS'' = Some (hd (cvs @ ms)) \<and>
           (\<forall>ws b''. varType b \<noteq> [] \<and> varTypeIsSet b \<and> onchange ws b' = Inr b''
              \<longrightarrow> curValue b'' = Some (hd (cvs @ ms)))"
proof -
  let ?names = "map (\<lambda>m. if Some m = oldName then newName else Some m) ms"
  let ?opts = "map (\<lambda>v. (v, v)) cvs @ map (\<lambda>m. (m @ ''()'', m)) ms"
  define D where "D = \<lparr>input_name = ''Data'', input_type = DUMMY_INPUT,
                      fieldRow = [(Some ''METHODS'', FieldDropdown ?opts (hd (cvs @ ms)))],
                      input_target = None\<rparr>"
  from wf have one: "length (filter (\<lambda>i. input_name i = ''Data'') (inputList b)) \<le> 1"
    and only: "\<forall>i \<in> set (inputList b).
        Some ''METHODS'' \<in> fst ` set (fieldRow i) \<longrightarrow> input_name i = ''Data''"
    by (simp_all add: dropdown_in_Data_def)
  from drop_Data_set[OF one] obtain inputs
    where b1: "(if getInput b ''Data'' \<noteq> None then removeInput b ''Data'' else Inr b) =
                 Inr (b\<lparr>inputList := inputs\<rparr>)"
      and inputs: "set inputs = {i \<in> set (inputList b). input_name i \<noteq> ''Data''}"
    by blast
  define b2 where "b2 = b\<lparr>inputList := inputs, methods := ms, classVariables := cvs\<rparr>"
  define b3 where "b3 = select_current b2 ?names oldName newName"
  have c2: "curValue b2 = curValue b" "classVariables b2 = cvs" by (simp_all add: b2_def)
  have g1: "(if curValue b2 = oldName then newName else curValue b2) \<notin> set ?names"
    unfolding c2 by (rule gone_m)
  have g2: "\<not> array_includes (classVariables b2)
           (if curValue b2 = oldName then newName else curValue b2)"
    unfolding c2 by (rule gone_a)
  have "b3 = (if curValue b2 = oldName then b2\<lparr>curValue := newName\<rparr> else b2)
             \<lparr>curValue := Some [], typeOfValue := Some []\<rparr>"
    unfolding b3_def by (rule select_current_cleared[OF g1 g2])
  then have b3: "b3 = b\<lparr>methods := ms, classVariables := cvs, curValue := Some [],
                        typeOfValue := Some [], inputList := inputs\<rparr>"
    by (simp add: b2_def)
  have f3: "curValue b3 = Some []" "typeOfValue b3 = Some []"
    "methods b3 = ms" "classVariables b3 = cvs"
    by (simp_all add: b3)
  have "dropdown_options b3 ?names =
      map (\<lambda>v. (v, v)) cvs @ map (\<lambda>(n, m). (m @ ''()'', m)) (zip ?names ms)"
    using dropdown_options_cleared[OF f3(1,2)] f3(3,4) by simp
  then have opts: "dropdown_options b3 ?names = ?opts" by (simp only: method_options)
  from hd_member_options[OF members] obtain l rest
    where o: "?opts = (l, hd (cvs @ ms)) # rest" by blast
  have o': "dropdown_options b3 ?names = (l, hd (cvs @ ms)) # rest" using opts o by simp
  define b4 where "b4 = appendDummyInput b3 ''Data'' ''METHODS''
      (FieldDropdown ((l, hd (cvs @ ms)) # rest) (hd (cvs @ ms)))"
  have "b4 = appendDummyInput b3 ''Data'' ''METHODS'' (FieldDropdown ?opts (hd (cvs @ ms)))"
    unfolding b4_def o[symmetric] ..
  then have b4: "b4 = b\<lparr>methods := ms, classVariables := cvs, curValue := Some [],
                    typeOfValue := Some [], inputList := inputs @ [D]\<rparr>"
    by (simp add: b3 appendDummyInput_def D_def)
  have data: "''Data'' \<in> input_name ` set (inputList b4)"
    by (simp add: b4_def appendDummyInput_def)
  have run: "getDropDown workspace b oldName newName =
      (if getInput b4 ''ARG0'' \<noteq> None
       then moveInputBefore b4 ''Data'' (Some ''ARG0'') else Inr b4)"
    unfolding getDropDown_def using flyout rebuilt members
    by (simp add: ms cvs and_then_def b1 Let_def b2_def[symmetric] b3_def[symmetric] o'
        b4_def[symmetric] del: not_None_eq)
  have "\<exists>inputs'. getDropDown workspace b oldName newName = Inr (b4\<lparr>inputList := inputs'\<rparr>) \<and>
          set inputs' = set (inputList b4)"
  proof (cases "getInput b4 ''ARG0'' = None")
    case True
    then have "getDropDown workspace b oldName newName = Inr (b4\<lparr>inputList := inputList b4\<rparr>)"
      unfolding run by simp
    then show ?thesis by blast
  next
    case False
    then have "''ARG0'' \<in> input_name ` set (inputList b4)" by (simp add: getInput_None)
    from moveInputBefore_found[OF data this]
    obtain b' where m: "moveInputBefore b4 ''Data'' (Some ''ARG0'') = Inr b'" by blast
    from moveInputBefore_set[OF m] m False show ?thesis unfolding run by auto
  qed
  then obtain inputs' where res: "getDropDown workspace b oldName newName = Inr (b4\<lparr>inputList := inputs'\<rparr>)"
    and set': "set inputs' = set (inputList b4)" by blast
  define b' where "b' = b4\<lparr>inputList := inputs'\<rparr>"
  have il: "inputList b' = inputs'" by (simp add: b'_def)
  have frame: "b' = b\<lparr>methods := ms, classVariables := cvs, curValue := Some [],
                  typeOfValue := Some [], inputList := inputList b'\<rparr>"
    unfolding il by (simp add: b'_def b4)
  have sets: "set (inputList b') = insert D {i \<in> set (inputList b). input_name i \<noteq> ''Data''}"
    unfolding il set' by (simp add: b4 inputs)
  have member: "hd (cvs @ ms) \<in> set cvs \<union> set ms"
  proof (cases cvs)
    case Nil
    with members show ?thesis by simp
  next
    case (Cons v vs)
    then show ?thesis by simp
  qed
  have field: "getFieldValue b' ''METHODS'' = Some (hd (cvs @ ms))"
  proof -
    have 1: "D \<in> set (inputList b')" unfolding sets by simp
    have 2: "fieldRow D = [(Some ''METHODS'', FieldDropdown ?opts (hd (cvs @ ms)))]"
      by (simp add: D_def)
    have 3: "\<forall>i \<in> set (inputList b'). i \<noteq> D \<longrightarrow> Some ''METHODS'' \<notin> fst ` set (fieldRow i)"
    proof (intro ballI impI)
      fix i assume "i \<in> set (inputList b')" and "i \<noteq> D"
      then have "i \<in> set (inputList b)" and "input_name i \<noteq> ''Data''" unfolding sets by simp_all
      with only show "Some ''METHODS'' \<notin> fst ` set (fieldRow i)" by blast
    qed
    from getFieldValue_unique[OF 1 2 3] show ?thesis by simp
  qed
  have adopt: "\<forall>ws b''. varType b \<noteq> [] \<and> varTypeIsSet b \<and> onchange ws b' = Inr b''
              \<longrightarrow> curValue b'' = Some (hd (cvs @ ms))"
  proof (intro allI impI)
    fix ws b'' assume a: "varType b \<noteq> [] \<and> varTypeIsSet b \<and> onchange ws b' = Inr b''"
    have "varType b' = varType b" "varTypeIsSet b' = varTypeIsSet b" by (simp_all add: b'_def b4)
    with a have "onchange ws b' = Inr b''" "varType b' \<noteq> []" "varTypeIsSet b'" by simp_all
    from onchange_adopts[OF this] field show "curValue b'' = Some (hd (cvs @ ms))" by simp
  qed
  from res[folded b'_def] frame sets[unfolded D_def] member field adopt show ?thesis by blast
qed

theorem getDropDown_clears_witness:
  "\<exists>b' b''. getDropDown (workspace_of [class_class 1 ''Animal'' [''walk''] [''legs''], feed_site])
              feed_site None None = Inr b' \<and>
            curValue b' = Some [] \<and> typeOfValue b' = Some [] \<and>
            getFieldValue b' ''METHODS'' = Some ''legs'' \<and>
            onchange (workspace_of [class_class 1 ''Animal'' [''walk''] [''legs''], feed_site]) b'
              = Inr b'' \<and>
            curValue b'' = Some ''legs''"
proof -
  let ?ws = "workspace_of [class_class 1 ''Animal'' [''walk''] [''legs''], feed_site]"
  have 1: "\<not> isInFlyout feed_site" by (simp add: feed_site_def example_defs)
  have 2: "dropdown_in_Data feed_site"
    by (simp add: dropdown_in_Data_def feed_site_def example_defs)
  have 3: "getMethods ?ws (getClassName feed_site) = Inr [''walk'']"
    by (simp add: query_defs feed_site_def example_defs)
  have 4: "getClassVariables ?ws (getClassName feed_site) = Inr [''legs'']"
    by (simp add: query_defs feed_site_def example_defs)
  have 5: "length (methods feed_site) \<noteq> length [''walk''] \<or> truthy None \<or>
      length (classVariables feed_site) \<noteq> length [''legs'']"
    by (simp add: feed_site_def example_defs)
  have 6: "[''walk''] \<noteq> [] \<or> [''legs''] \<noteq> []" by simp
  have 7: "(if curValue feed_site = None then None else curValue feed_site) \<notin>
      set (map (\<lambda>m. if Some m = None then None else Some m) [''walk''])"
    by (simp add: feed_site_def example_defs)
  have 8: "\<not> array_includes [''legs'']
      (if curValue feed_site = None then None else curValue feed_site)"
    by (simp add: feed_site_def example_defs array_includes_def)
  have 9: "varType feed_site \<noteq> [] \<and> varTypeIsSet feed_site"
    by (simp add: feed_site_def example_defs)
  from getDropDown_clears[OF 1 2 3 4 5 6 7 8] obtain b'
    where run: "getDropDown ?ws feed_site None None = Inr b'"
      and frame: "b' = feed_site\<lparr>methods := [''walk''], classVariables := [''legs''],
                     curValue := Some [], typeOfValue := Some [], inputList := inputList b'\<rparr>"
      and field: "getFieldValue b' ''METHODS'' = Some (hd ([''legs''] @ [''walk'']))"
      and adopt: "\<forall>ws b''. varType feed_site \<noteq> [] \<and> varTypeIsSet feed_site \<and>
                    onchange ws b' = Inr b'' \<longrightarrow> curValue b'' = Some (hd ([''legs''] @ [''walk'']))"
    by blast
  from arg_cong[OF frame, of curValue] have c: "curValue b' = Some []" by simp
  from arg_cong[OF frame, of typeOfValue] have t: "typeOfValue b' = Some []" by simp
  have "\<exists>b''. and_then (getDropDown ?ws feed_site None None) (onchange ?ws) = Inr b''"
    by (simp add: getDropDown_def query_defs and_then_def truthy_def input_defs
      select_current_def dropdown_options_def array_includes_def Let_def
      onchange_def onchange_attribute_def setType_def connection_defs remove_arguments.simps
      ARG_def dec_small feed_site_def example_defs)
  then obtain b'' where next_change: "onchange ?ws b' = Inr b''"
    unfolding run by (auto simp: and_then_def)
  with adopt 9 have "curValue b'' = Some (hd ([''legs''] @ [''walk'']))" by blast
  with run c t field next_change show ?thesis by simp
qed

text \<open>
  Claim C8 as stated fails: the cleared selection is replaced by another member. The
  method \<open>speak\<close> is selected and the class has now the method \<open>walk\<close> and the
  attribute \<open>legs\<close>. The dropdown that \<open>getDropDown\<close> makes shows \<open>legs\<close>, and the
  next \<open>onchange\<close> makes \<open>legs\<close> the selection, an attribute.
\<close>

theorem getDropDown_selection_replaced:
  "curValue speak_site = Some ''speak'' \<and>
   (\<exists>b' b''. getDropDown (workspace_of [class_class 1 ''Animal'' [''walk''] [''legs''], speak_site])
               speak_site None None = Inr b' \<and>
             getFieldValue b' ''METHODS'' = Some ''legs'' \<and>
             onchange (workspace_of [class_class 1 ''Animal'' [''walk''] [''legs''], b']) b' = Inr b'' \<and>
             curValue b'' = Some ''legs'' \<and> typeOfValue b'' = Some ''attribute'')"
  by (simp add: getDropDown_def query_defs and_then_def truthy_def input_defs
      select_current_def dropdown_options_def array_includes_def Let_def
      onchange_def onchange_attribute_def setType_def connection_defs remove_arguments.simps
      speak_site_def example_defs)

end
